theory Spec2Isabelle
  imports Complex_Main
begin

section \<open>Data Vault: sessions, datasets and per-context navigation\<close>

text \<open>
  A shallow embedding of the request handlers of \<^verbatim>\<open>src/data_vault.py\<close> (class
  \<^verbatim>\<open>DataVault\<close>). The handlers mutate two things: the shared session store and the
  context dictionary \<^verbatim>\<open>c\<close> of the calling client. Both are passed in and handed back,
  also when the handler raises: a Python exception does not undo the mutations made
  before it, so every handler returns a triple: the outcome (\<open>Inl\<close> the exception,
  \<open>Inr\<close> the returned value), the store and the context as the call leaves them.
\<close>

subsection \<open>Data model\<close>

type_synonym path = "string list"

text \<open>The key of a context for notifications is \<^verbatim>\<open>c.ID\<close>.\<close>

type_synonym key = nat

text \<open>
  A dataset name is the title prefixed with the dataset's number in its session. The
  format of the prefix is fixed outside \<^verbatim>\<open>src/\<close>; the name is kept as the pair.
\<close>

type_synonym dsname = "nat \<times> string"

text \<open>
  \<^verbatim>\<open>c['session']\<close> and \<^verbatim>\<open>c['datasetObj']\<close> are object references. The store holds one
  session per path and never drops one, and a session never drops a dataset, so a
  session is addressed by its path and a dataset by the path of its session and its name.
\<close>

type_synonym dsref = "path \<times> dsname"

datatype lrdata = LNum real | LStr string | LBool bool | LCluster "lrdata list"

datatype error =
    NoDatasetError
  | DirectoryNotFoundError path
  | EmptyNameError
  | DirectoryExistsError path
  | ReadOnlyError
  | NotFound
  | InvalidArgument
  | KeyError
  | DanglingReference

text \<open>
  The first five are the exceptions that \<^verbatim>\<open>data_vault.py\<close> raises itself. \<open>NotFound\<close>
  and \<open>InvalidArgument\<close> are the error kinds the spec gives for the failures inside the
  package \<^verbatim>\<open>datavault\<close>. \<open>KeyError\<close> is what Python's \<^verbatim>\<open>set.remove\<close> raises on a missing element.
  \<open>DanglingReference\<close> has no counterpart in Python: it is the outcome of the model when
  a reference of a context names no object of the store, which an object reference
  cannot do.
\<close>

record Dataset =
  name :: dsname
  independents :: "(string \<times> string) list"
  dependents :: "(string \<times> string \<times> string) list"
  rows :: "real list list"
  parameters :: "(string \<times> lrdata) list"
  comments :: "(real \<times> string \<times> string) list"
  ds_listeners :: "key \<rightharpoonup> nat"
  param_listeners :: "key set"
  comment_listeners :: "key \<rightharpoonup> nat"

record Session =
  session_path :: path
  datasets :: "dsname \<rightharpoonup> Dataset"
  dataset_order :: "dsname list"
  listeners :: "key set"

type_synonym session_store = "path \<rightharpoonup> Session"

text \<open>
  The context dictionary. The keys \<^verbatim>\<open>'dataset'\<close>, \<^verbatim>\<open>'datasetObj'\<close>, \<^verbatim>\<open>'filepos'\<close>,
  \<^verbatim>\<open>'commentpos'\<close> and \<^verbatim>\<open>'writing'\<close> are written together and only by \<^verbatim>\<open>new\<close> and
  \<^verbatim>\<open>open\<close>, so they are present together or not at all: \<open>sel c = None\<close> is
  \<^verbatim>\<open>'dataset' not in c\<close>.
\<close>

record opened =
  dataset :: dsname
  datasetObj :: dsref
  filepos :: nat
  commentpos :: nat
  writing :: bool

record Context =
  ID :: key
  path :: path
  session :: path
  sel :: "opened option"

subsection \<open>SessionStore\<close>

text \<open>
  Modelled from the spec: the class \<^verbatim>\<open>SessionStore\<close> of the package \<^verbatim>\<open>datavault\<close> is
  not under \<^verbatim>\<open>src/\<close>. \<^verbatim>\<open>exists(path)\<close> tells whether a session has been created for
  the path, without creating it; \<^verbatim>\<open>get(path)\<close> returns the session of the path,
  creating it and all its missing ancestors on demand, and never fails; \<^verbatim>\<open>get_all()\<close>
  is every session ever created, which is the range of the map. A session starts with no
  dataset and no listener. The notification that a creation may send to the listeners
  of the parent changes no state and is left out.
\<close>

definition store_exists :: "session_store \<Rightarrow> path \<Rightarrow> bool" where
  "store_exists st p = (st p \<noteq> None)"

definition new_session :: "path \<Rightarrow> Session" where
  "new_session p = \<lparr>session_path = p, datasets = Map.empty, dataset_order = [], listeners = {}\<rparr>"

definition touch :: "path \<Rightarrow> session_store \<Rightarrow> session_store" where
  "touch p st = (if st p = None then st(p \<mapsto> new_session p) else st)"

definition ancestors :: "path \<Rightarrow> path list" where
  "ancestors p = map (\<lambda>k. take k p) [1..<length p]"

definition store_get :: "session_store \<Rightarrow> path \<Rightarrow> session_store" where
  "store_get st p = (if store_exists st p then st else fold touch (ancestors p @ [p]) st)"

definition upd_session :: "session_store \<Rightarrow> path \<Rightarrow> (Session \<Rightarrow> Session) \<Rightarrow> session_store" where
  "upd_session st p f = (case st p of None \<Rightarrow> st | Some s \<Rightarrow> st(p \<mapsto> f s))"

subsection \<open>Server and context start\<close>

text \<open>\<^verbatim>\<open>initServer\<close> creates the root session.\<close>

definition initServer :: "session_store \<Rightarrow> session_store" where
  "initServer st = store_get st ['''']"

text \<open>\<^verbatim>\<open>initContext\<close>: start in the root session and listen to it.\<close>

definition initContext :: "session_store \<Rightarrow> Context \<Rightarrow> session_store \<times> Context" where
  "initContext st c =
     (let st1 = store_get st [''''] in
      (upd_session st1 [''''] (\<lambda>s. s\<lparr>listeners := insert (ID c) (listeners s)\<rparr>),
       c\<lparr>path := [''''], session := ['''']\<rparr>))"

subsection \<open>cd and mkdir\<close>

text \<open>
  The argument of \<^verbatim>\<open>cd\<close>: absent, a number of levels to go up (\<^verbatim>\<open>isinstance(path, (int,
  long))\<close>), one segment (a \<^verbatim>\<open>str\<close>, which the handler wraps into a list), or a list of
  segments.
\<close>

datatype cd_arg = NoPath | Levels int | Segment string | Segments "string list"

text \<open>One round of the loop changes \<^verbatim>\<open>temp\<close>: the empty segment is the root.\<close>

definition cd_step :: "path \<Rightarrow> string \<Rightarrow> path" where
  "cd_step temp segment = (if segment = '''' then [''''] else temp @ [segment])"

text \<open>
  The loop \<^verbatim>\<open>for segment in path\<close> of \<^verbatim>\<open>cd\<close>: it raises in the middle, with the store
  as the rounds before have left it, or ends with the resolved path.
\<close>

fun cd_loop :: "session_store \<Rightarrow> bool \<Rightarrow> path \<Rightarrow> string list \<Rightarrow> (error + path) \<times> session_store" where
  "cd_loop st create temp [] = (Inr temp, st)"
| "cd_loop st create temp (segment # segs) =
     (let temp' = cd_step temp segment in
      if \<not> store_exists st temp' \<and> \<not> create then (Inl (DirectoryNotFoundError temp'), st)
      else cd_loop (store_get st temp') create temp' segs)"

text \<open>
  The end of \<^verbatim>\<open>cd\<close>, from \<^verbatim>\<open>if c['path'] != temp\<close>: stop listening to the old session
  and start listening to the new one.
\<close>

definition cd_migrate :: "session_store \<Rightarrow> Context \<Rightarrow> path \<Rightarrow> (error + path) \<times> session_store \<times> Context" where
  "cd_migrate st c temp =
     (if path c \<noteq> temp then
        (case st (session c) of
           None \<Rightarrow> (Inl DanglingReference, st, c)
         | Some old \<Rightarrow>
             if ID c \<notin> listeners old then (Inl KeyError, st, c)
             else
               let st1 = st(session c \<mapsto> old\<lparr>listeners := listeners old - {ID c}\<rparr>);
                   st2 = store_get st1 temp;
                   st3 = upd_session st2 temp (\<lambda>s. s\<lparr>listeners := insert (ID c) (listeners s)\<rparr>)
               in (Inr temp, st3, c\<lparr>session := temp, path := temp\<rparr>))
      else (Inr (path c), st, c))"

definition cd :: "session_store \<Rightarrow> Context \<Rightarrow> cd_arg \<Rightarrow> bool \<Rightarrow> (error + path) \<times> session_store \<times> Context" where
  "cd st c arg create =
     (case arg of
        NoPath \<Rightarrow> (Inr (path c), st, c)
      | Levels n \<Rightarrow>
          (let temp = path c;
               temp = (if n > 0
                       then (let t = take (length temp - nat n) temp in if length t = 0 then [''''] else t)
                       else temp)
           in cd_migrate st c temp)
      | Segment s \<Rightarrow>
          (case cd_loop st create (path c) [s] of
             (Inl e, st') \<Rightarrow> (Inl e, st', c)
           | (Inr temp, st') \<Rightarrow> cd_migrate st' c temp)
      | Segments segs \<Rightarrow>
          (case cd_loop st create (path c) segs of
             (Inl e, st') \<Rightarrow> (Inl e, st', c)
           | (Inr temp, st') \<Rightarrow> cd_migrate st' c temp))"

definition mkdir :: "session_store \<Rightarrow> Context \<Rightarrow> string \<Rightarrow> (error + path) \<times> session_store \<times> Context" where
  "mkdir st c nm =
     (if nm = '''' then (Inl EmptyNameError, st, c)
      else
        let p = path c @ [nm] in
        if store_exists st p then (Inl (DirectoryExistsError p), st, c)
        else (Inr p, store_get st p, c))"

subsection \<open>Datasets\<close>

text \<open>
  Modelled from the spec: the class \<^verbatim>\<open>Dataset\<close> of the package \<^verbatim>\<open>datavault\<close> is not
  under \<^verbatim>\<open>src/\<close>. The data and comment listeners map a context to the offset it has
  been served up to; \<^verbatim>\<open>keepStreaming(key, pos)\<close> and \<^verbatim>\<open>keepStreamingComments(key, pos)\<close>
  insert or update the entry of the context at that offset.
\<close>

definition keepStreaming :: "Dataset \<Rightarrow> key \<Rightarrow> nat \<Rightarrow> Dataset" where
  "keepStreaming d k pos = d\<lparr>ds_listeners := (ds_listeners d)(k \<mapsto> pos)\<rparr>"

definition keepStreamingComments :: "Dataset \<Rightarrow> key \<Rightarrow> nat \<Rightarrow> Dataset" where
  "keepStreamingComments d k pos = d\<lparr>comment_listeners := (comment_listeners d)(k \<mapsto> pos)\<rparr>"

text \<open>
  Modelled from the spec: \<^verbatim>\<open>addData\<close> fails when a row has not the arity of the schema;
  otherwise it appends all the rows and signals "data available" to every context of
  the data listeners whose offset is behind the new length. The result holds the set of
  the contexts signalled.
\<close>

definition data_signalled :: "Dataset \<Rightarrow> key set" where
  "data_signalled d =
     {k. case ds_listeners d k of None \<Rightarrow> False | Some pos \<Rightarrow> pos < length (rows d)}"

definition addData :: "Dataset \<Rightarrow> real list list \<Rightarrow> error + (Dataset \<times> key set)" where
  "addData d data =
     (if list_all (\<lambda>r. length r = length (independents d) + length (dependents d)) data
      then (let d' = d\<lparr>rows := rows d @ data\<rparr> in Inr (d', data_signalled d'))
      else Inl InvalidArgument)"

text \<open>
  Modelled from the spec: \<^verbatim>\<open>getData(limit, pos)\<close> returns the rows from \<open>pos\<close>, at most
  \<open>limit\<close> of them when a limit is set, and the offset to resume from; nothing, and no
  error, from an offset at or after the end. \<^verbatim>\<open>getComments\<close> has the same contract.
\<close>

definition read_from :: "'a list \<Rightarrow> nat option \<Rightarrow> nat \<Rightarrow> 'a list \<times> nat" where
  "read_from xs limit pos =
     (let avail = drop pos xs;
          out = (case limit of None \<Rightarrow> avail | Some n \<Rightarrow> take n avail)
      in (out, pos + length out))"

definition getData :: "Dataset \<Rightarrow> nat option \<Rightarrow> nat \<Rightarrow> real list list \<times> nat" where
  "getData d limit pos = read_from (rows d) limit pos"

definition getComments :: "Dataset \<Rightarrow> nat option \<Rightarrow> nat \<Rightarrow> (real \<times> string \<times> string) list \<times> nat" where
  "getComments d limit pos = read_from (comments d) limit pos"

text \<open>
  Modelled from the spec: \<^verbatim>\<open>addParameter\<close> and \<^verbatim>\<open>addParameters\<close> append the new
  entries (a name that is there already is not guarded against), signal "new parameter"
  once to every context of the parameter listeners and clear that set.
\<close>

definition addParameters :: "Dataset \<Rightarrow> (string \<times> lrdata) list \<Rightarrow> Dataset \<times> key set" where
  "addParameters d params =
     (d\<lparr>parameters := parameters d @ params, param_listeners := {}\<rparr>, param_listeners d)"

definition addParameter :: "Dataset \<Rightarrow> string \<Rightarrow> lrdata \<Rightarrow> Dataset \<times> key set" where
  "addParameter d nm v = addParameters d [(nm, v)]"

text \<open>
  Modelled from the spec: \<^verbatim>\<open>getParameter\<close> looks for the exact name when the lookup is
  case-sensitive and scans without regard to case otherwise; an absent name is a
  not-found failure.
\<close>

definition lower_char :: "char \<Rightarrow> char" where
  "lower_char ch =
     (let n = (of_char ch :: nat) in if 65 \<le> n \<and> n \<le> 90 then char_of (n + 32) else ch)"

definition getParameter :: "Dataset \<Rightarrow> string \<Rightarrow> bool \<Rightarrow> error + lrdata" where
  "getParameter d nm case_sensitive =
     (case find (\<lambda>(label, v). if case_sensitive then label = nm
                               else map lower_char label = map lower_char nm) (parameters d) of
        None \<Rightarrow> Inl NotFound
      | Some (label, v) \<Rightarrow> Inr v)"

text \<open>
  Modelled from the spec: \<^verbatim>\<open>addComment\<close> appends the comment with the time of the call,
  which is an input here, and signals "comments available" to every context of the
  comment listeners.
\<close>

definition addComment :: "Dataset \<Rightarrow> real \<Rightarrow> string \<Rightarrow> string \<Rightarrow> Dataset \<times> key set" where
  "addComment d now user txt =
     (d\<lparr>comments := comments d @ [(now, user, txt)]\<rparr>, dom (comment_listeners d))"

subsection \<open>Datasets of a session\<close>

text \<open>
  Modelled from the spec: \<^verbatim>\<open>Session.newDataset\<close> and \<^verbatim>\<open>Session.openDataset\<close> are not
  under \<^verbatim>\<open>src/\<close>. \<^verbatim>\<open>newDataset\<close> takes the next number of the session, prefixes the
  title with it, builds the dataset with the declared schema and registers it; it fails
  on a malformed variable (a cluster of the wrong arity or an empty label). Only the
  cluster form of a variable is modelled: (label, units) for an independent and
  (label, legend, units) for a dependent, which the dataset keeps as category, label and
  units. \<^verbatim>\<open>openDataset\<close> resolves an existing dataset by its exact name or by its
  1-based position in creation order and fails with not-found otherwise; it returns the
  object, here the key under which the session holds it together with its value. The
  "new dataset" signal to the listeners of the session changes no state and is left out.
\<close>

fun independent_of :: "string list \<Rightarrow> (string \<times> string) option" where
  "independent_of [label, units] = (if label = '''' then None else Some (label, units))"
| "independent_of _ = None"

fun dependent_of :: "string list \<Rightarrow> (string \<times> string \<times> string) option" where
  "dependent_of [label, legend, units] = (if label = '''' then None else Some (label, legend, units))"
| "dependent_of _ = None"

fun collect :: "'a option list \<Rightarrow> 'a list option" where
  "collect [] = Some []"
| "collect (None # xs) = None"
| "collect (Some x # xs) = (case collect xs of None \<Rightarrow> None | Some ys \<Rightarrow> Some (x # ys))"

definition newDataset :: "Session \<Rightarrow> string \<Rightarrow> string list list \<Rightarrow> string list list \<Rightarrow> error + (Session \<times> Dataset)" where
  "newDataset s title inds deps =
     (case (collect (map independent_of inds), collect (map dependent_of deps)) of
        (Some is, Some ds) \<Rightarrow>
          (let n = (Suc (length (dataset_order s)), title);
               d = \<lparr>name = n, independents = is, dependents = ds, rows = [], parameters = [],
                    comments = [], ds_listeners = Map.empty, param_listeners = {},
                    comment_listeners = Map.empty\<rparr>
           in Inr (s\<lparr>datasets := (datasets s)(n \<mapsto> d), dataset_order := dataset_order s @ [n]\<rparr>, d))
      | _ \<Rightarrow> Inl InvalidArgument)"

datatype ds_sel = ByName dsname | ByIndex nat

definition openDataset :: "Session \<Rightarrow> ds_sel \<Rightarrow> error + (dsname \<times> Dataset)" where
  "openDataset s x =
     (case x of
        ByName n \<Rightarrow> (case datasets s n of None \<Rightarrow> Inl NotFound | Some d \<Rightarrow> Inr (n, d))
      | ByIndex i \<Rightarrow>
          (if 1 \<le> i \<and> i \<le> length (dataset_order s)
           then (let n = dataset_order s ! (i - 1)
                 in case datasets s n of None \<Rightarrow> Inl NotFound | Some d \<Rightarrow> Inr (n, d))
           else Inl NotFound))"

subsection \<open>Following and writing through a dataset reference\<close>

definition lookup_dataset :: "session_store \<Rightarrow> dsref \<Rightarrow> Dataset option" where
  "lookup_dataset st r = (case st (fst r) of None \<Rightarrow> None | Some s \<Rightarrow> datasets s (snd r))"

definition put_dataset :: "session_store \<Rightarrow> dsref \<Rightarrow> Dataset \<Rightarrow> session_store" where
  "put_dataset st r d = upd_session st (fst r) (\<lambda>s. s\<lparr>datasets := (datasets s)(snd r \<mapsto> d)\<rparr>)"

subsection \<open>expireContext\<close>

text \<open>
  \<^verbatim>\<open>removeFromList\<close> is applied to a set (the listeners of a session, the parameter
  listeners) and to the two offset maps, where removing the key drops its entry.
\<close>

definition removeFromList :: "key \<Rightarrow> key set \<Rightarrow> key set" where
  "removeFromList k ls = (if k \<in> ls then ls - {k} else ls)"

definition removeFromMap :: "key \<Rightarrow> (key \<rightharpoonup> nat) \<Rightarrow> (key \<rightharpoonup> nat)" where
  "removeFromMap k ls = (if ls k \<noteq> None then ls(k := None) else ls)"

definition expire_dataset :: "key \<Rightarrow> Dataset \<Rightarrow> Dataset" where
  "expire_dataset k d =
     d\<lparr>ds_listeners := removeFromMap k (ds_listeners d),
       param_listeners := removeFromList k (param_listeners d),
       comment_listeners := removeFromMap k (comment_listeners d)\<rparr>"

definition expire_session :: "key \<Rightarrow> Session \<Rightarrow> Session" where
  "expire_session k s =
     s\<lparr>listeners := removeFromList k (listeners s),
       datasets := (\<lambda>n. map_option (expire_dataset k) (datasets s n))\<rparr>"

text \<open>The loop over \<^verbatim>\<open>get_all()\<close> visits every session of the store.\<close>

definition expireContext :: "session_store \<Rightarrow> Context \<Rightarrow> session_store" where
  "expireContext st c = (\<lambda>p. map_option (expire_session (ID c)) (st p))"

subsection \<open>Selecting a dataset: new and open\<close>

definition new :: "session_store \<Rightarrow> Context \<Rightarrow> string \<Rightarrow> string list list \<Rightarrow> string list list \<Rightarrow>
    (error + (path \<times> dsname)) \<times> session_store \<times> Context" where
  "new st c nm inds deps =
     (case st (session c) of
        None \<Rightarrow> (Inl DanglingReference, st, c)
      | Some s \<Rightarrow>
          (case newDataset s (if nm = '''' then ''untitled'' else nm) inds deps of
             Inl e \<Rightarrow> (Inl e, st, c)
           | Inr (s', d) \<Rightarrow>
               (Inr (path c, name d), st(session c \<mapsto> s'),
                c\<lparr>sel := Some \<lparr>dataset = name d, datasetObj = (session c, name d),
                                filepos = 0, commentpos = 0, writing = True\<rparr>\<rparr>)))"

definition open_dataset :: "session_store \<Rightarrow> Context \<Rightarrow> ds_sel \<Rightarrow>
    (error + (path \<times> dsname)) \<times> session_store \<times> Context" where
  "open_dataset st c x =
     (case st (session c) of
        None \<Rightarrow> (Inl DanglingReference, st, c)
      | Some s \<Rightarrow>
          (case openDataset s x of
             Inl e \<Rightarrow> (Inl e, st, c)
           | Inr (n, d) \<Rightarrow>
               (let r = (session c, n);
                    d1 = keepStreaming d (ID c) 0;
                    d2 = keepStreamingComments d1 (ID c) 0
                in (Inr (path c, name d), put_dataset st r d2,
                    c\<lparr>sel := Some \<lparr>dataset = name d, datasetObj = r,
                                    filepos = 0, commentpos = 0, writing = False\<rparr>\<rparr>))))"

subsection \<open>Operations on the selected dataset\<close>

text \<open>
  \<^verbatim>\<open>getDataset\<close> raises when no dataset is selected and returns \<^verbatim>\<open>c['datasetObj']\<close>
  otherwise; here it hands back the entries of the selection with the object the
  reference names.
\<close>

definition getDataset :: "session_store \<Rightarrow> Context \<Rightarrow> error + (opened \<times> Dataset)" where
  "getDataset st c =
     (case sel c of
        None \<Rightarrow> Inl NoDatasetError
      | Some sl \<Rightarrow>
          (case lookup_dataset st (datasetObj sl) of
             None \<Rightarrow> Inl DanglingReference
           | Some d \<Rightarrow> Inr (sl, d)))"

text \<open>\<^verbatim>\<open>add\<close> returns nothing; the value here is the set of contexts that are signalled.\<close>

definition add :: "session_store \<Rightarrow> Context \<Rightarrow> real list list \<Rightarrow> (error + key set) \<times> session_store \<times> Context" where
  "add st c data =
     (case getDataset st c of
        Inl e \<Rightarrow> (Inl e, st, c)
      | Inr (sl, d) \<Rightarrow>
          if \<not> writing sl then (Inl ReadOnlyError, st, c)
          else
            (case addData d data of
               Inl e \<Rightarrow> (Inl e, st, c)
             | Inr (d', signalled) \<Rightarrow> (Inr signalled, put_dataset st (datasetObj sl) d', c)))"

definition get :: "session_store \<Rightarrow> Context \<Rightarrow> nat option \<Rightarrow> bool \<Rightarrow>
    (error + real list list) \<times> session_store \<times> Context" where
  "get st c limit startOver =
     (case getDataset st c of
        Inl e \<Rightarrow> (Inl e, st, c)
      | Inr (sl, d) \<Rightarrow>
          (let pos = (if startOver then 0 else filepos sl);
               (data, pos') = getData d limit pos;
               d' = keepStreaming d (ID c) pos'
           in (Inr data, put_dataset st (datasetObj sl) d', c\<lparr>sel := Some (sl\<lparr>filepos := pos'\<rparr>)\<rparr>)))"

definition variables :: "session_store \<Rightarrow> Context \<Rightarrow>
    (error + ((string \<times> string) list \<times> (string \<times> string \<times> string) list)) \<times> session_store \<times> Context" where
  "variables st c =
     (case getDataset st c of
        Inl e \<Rightarrow> (Inl e, st, c)
      | Inr (sl, ds) \<Rightarrow> (Inr (independents ds, dependents ds), st, c))"

definition parameters_names :: "session_store \<Rightarrow> Context \<Rightarrow> (error + string list) \<times> session_store \<times> Context" where
  "parameters_names st c =
     (case getDataset st c of
        Inl e \<Rightarrow> (Inl e, st, c)
      | Inr (sl, d) \<Rightarrow>
          (let d' = d\<lparr>param_listeners := insert (ID c) (param_listeners d)\<rparr>
           in (Inr (map fst (parameters d)), put_dataset st (datasetObj sl) d', c)))"

definition add_parameter :: "session_store \<Rightarrow> Context \<Rightarrow> string \<Rightarrow> lrdata \<Rightarrow>
    (error + key set) \<times> session_store \<times> Context" where
  "add_parameter st c nm data =
     (case getDataset st c of
        Inl e \<Rightarrow> (Inl e, st, c)
      | Inr (sl, d) \<Rightarrow>
          (let (d', signalled) = addParameter d nm data
           in (Inr signalled, put_dataset st (datasetObj sl) d', c)))"

definition add_parameters :: "session_store \<Rightarrow> Context \<Rightarrow> (string \<times> lrdata) list \<Rightarrow>
    (error + key set) \<times> session_store \<times> Context" where
  "add_parameters st c params =
     (case getDataset st c of
        Inl e \<Rightarrow> (Inl e, st, c)
      | Inr (sl, d) \<Rightarrow>
          (let (d', signalled) = addParameters d params
           in (Inr signalled, put_dataset st (datasetObj sl) d', c)))"

definition get_name :: "session_store \<Rightarrow> Context \<Rightarrow> (error + dsname) \<times> session_store \<times> Context" where
  "get_name st c =
     (case getDataset st c of
        Inl e \<Rightarrow> (Inl e, st, c)
      | Inr (sl, d) \<Rightarrow> (Inr (name d), st, c))"

definition get_parameter :: "session_store \<Rightarrow> Context \<Rightarrow> string \<Rightarrow> bool \<Rightarrow>
    (error + lrdata) \<times> session_store \<times> Context" where
  "get_parameter st c nm case_sensitive =
     (case getDataset st c of
        Inl e \<Rightarrow> (Inl e, st, c)
      | Inr (sl, d) \<Rightarrow> (getParameter d nm case_sensitive, st, c))"

text \<open>The generator \<^verbatim>\<open>(name, dataset.getParameter(name)) for name in names\<close>.\<close>

fun lookup_each :: "Dataset \<Rightarrow> string list \<Rightarrow> error + (string \<times> lrdata) list" where
  "lookup_each d [] = Inr []"
| "lookup_each d (nm # nms) =
     (case getParameter d nm True of
        Inl e \<Rightarrow> Inl e
      | Inr v \<Rightarrow> (case lookup_each d nms of Inl e \<Rightarrow> Inl e | Inr ps \<Rightarrow> Inr ((nm, v) # ps)))"

text \<open>\<^verbatim>\<open>get_parameters\<close> returns nothing (\<open>None\<close>) for a dataset with no parameter.\<close>

definition get_parameters :: "session_store \<Rightarrow> Context \<Rightarrow>
    (error + (string \<times> lrdata) list option) \<times> session_store \<times> Context" where
  "get_parameters st c =
     (case getDataset st c of
        Inl e \<Rightarrow> (Inl e, st, c)
      | Inr (sl, d) \<Rightarrow>
          (case lookup_each d (map fst (parameters d)) of
             Inl e \<Rightarrow> (Inl e, st, c)
           | Inr params \<Rightarrow>
               (let d' = d\<lparr>param_listeners := insert (ID c) (param_listeners d)\<rparr>
                in (Inr (if length params \<noteq> 0 then Some params else None),
                    put_dataset st (datasetObj sl) d', c))))"

text \<open>The time of the call is an input of \<^verbatim>\<open>add_comment\<close>.\<close>

definition add_comment :: "session_store \<Rightarrow> Context \<Rightarrow> real \<Rightarrow> string \<Rightarrow> string \<Rightarrow>
    (error + key set) \<times> session_store \<times> Context" where
  "add_comment st c now comment user =
     (case getDataset st c of
        Inl e \<Rightarrow> (Inl e, st, c)
      | Inr (sl, d) \<Rightarrow>
          (let (d', signalled) = addComment d now user comment
           in (Inr signalled, put_dataset st (datasetObj sl) d', c)))"

definition get_comments :: "session_store \<Rightarrow> Context \<Rightarrow> nat option \<Rightarrow> bool \<Rightarrow>
    (error + (real \<times> string \<times> string) list) \<times> session_store \<times> Context" where
  "get_comments st c limit startOver =
     (case getDataset st c of
        Inl e \<Rightarrow> (Inl e, st, c)
      | Inr (sl, d) \<Rightarrow>
          (let pos = (if startOver then 0 else commentpos sl);
               (cs, pos') = getComments d limit pos;
               d' = keepStreamingComments d (ID c) pos'
           in (Inr cs, put_dataset st (datasetObj sl) d', c\<lparr>sel := Some (sl\<lparr>commentpos := pos'\<rparr>)\<rparr>)))"

subsection \<open>Notions used to state the properties\<close>

text \<open>The listener set of the session of a path; no session, no listener.\<close>

definition listeners_at :: "session_store \<Rightarrow> path \<Rightarrow> key set" where
  "listeners_at st p = (case st p of None \<Rightarrow> {} | Some s \<Rightarrow> listeners s)"

text \<open>
  The values that \<^verbatim>\<open>temp\<close> takes in the loop of \<^verbatim>\<open>cd\<close>, one per segment, when no round
  raises: the intermediate resolved paths.
\<close>

fun cd_temps :: "path \<Rightarrow> string list \<Rightarrow> path list" where
  "cd_temps temp [] = []"
| "cd_temps temp (segment # segs) = cd_step temp segment # cd_temps (cd_step temp segment) segs"

text \<open>
  The path that the argument of \<^verbatim>\<open>cd\<close> resolves to from the path \<open>p\<close>: \<open>p\<close> itself for no
  argument, \<open>p\<close> without its last \<open>n\<close> segments, and the root when none would be left, for
  a number \<open>n > 0\<close>, and for segments the path after the last of them. With it, the
  intermediate resolved paths of any argument.
\<close>

definition cd_resolved :: "path \<Rightarrow> cd_arg \<Rightarrow> path" where
  "cd_resolved p arg =
     (case arg of
        NoPath \<Rightarrow> p
      | Levels n \<Rightarrow>
          (if 0 < n then (if length p \<le> nat n then [''''] else take (length p - nat n) p) else p)
      | Segment s \<Rightarrow> cd_step p s
      | Segments segs \<Rightarrow> foldl cd_step p segs)"

definition cd_intermediate :: "path \<Rightarrow> cd_arg \<Rightarrow> path list" where
  "cd_intermediate p arg =
     (case arg of
        NoPath \<Rightarrow> []
      | Levels n \<Rightarrow> []
      | Segment s \<Rightarrow> cd_temps p [s]
      | Segments segs \<Rightarrow> cd_temps p segs)"

subsection \<open>A server with one client\<close>

text \<open>
  A context dictionary before \<^verbatim>\<open>initContext\<close> has set its path and session, and the
  state of a server that has started and taken one client, in its root directory.
\<close>

definition client :: "key \<Rightarrow> Context" where
  "client k = \<lparr>ID = k, path = [], session = [], sel = None\<rparr>"

definition one_client :: "session_store \<times> Context" where
  "one_client = initContext (initServer Map.empty) (client 7)"

text \<open>The same client after \<^verbatim>\<open>cd(['a', 'b'], create=True)\<close>.\<close>

definition two_down :: "session_store \<times> Context" where
  "two_down = snd (cd (fst one_client) (snd one_client) (Segments [''a'', ''b'']) True)"

text \<open>
  The client creates the dataset "scan" in the root directory; a second client then
  joins and opens that dataset. \<open>scan0\<close> is the dataset as \<^verbatim>\<open>new\<close> creates it.
\<close>

definition scan_made :: "(error + (path \<times> dsname)) \<times> session_store \<times> Context" where
  "scan_made = new (fst one_client) (snd one_client) ''scan'' [[''time'', ''s'']] [[''signal'', ''ch1'', ''V'']]"

definition scan_opened :: "(error + (path \<times> dsname)) \<times> session_store \<times> Context" where
  "scan_opened =
     (case initContext (fst (snd scan_made)) (client 8) of
        (st, c) \<Rightarrow> open_dataset st c (ByName (1, ''scan'')))"

definition scan0 :: Dataset where
  "scan0 = \<lparr>name = (1, ''scan''), independents = [(''time'', ''s'')],
            dependents = [(''signal'', ''ch1'', ''V'')], rows = [], parameters = [], comments = [],
            ds_listeners = Map.empty, param_listeners = {}, comment_listeners = Map.empty\<rparr>"

section \<open>Properties\<close>

subsection \<open>The session store\<close>

lemma fold_touch:
  "fold touch ps st q = (if st q = None \<and> q \<in> set ps then Some (new_session q) else st q)"
  by (induction ps arbitrary: st) (auto simp: touch_def)

lemma store_get_apply:
  "store_get st p q =
     (if st p = None \<and> st q = None \<and> (q = p \<or> q \<in> set (ancestors p))
      then Some (new_session q) else st q)"
proof (cases "st p = None")
  case True
  have "store_get st p q = fold touch (ancestors p @ [p]) st q"
    using True by (simp add: store_get_def store_exists_def)
  also have "\<dots> = (if st q = None \<and> q \<in> set (ancestors p @ [p]) then Some (new_session q) else st q)"
    by (rule fold_touch)
  finally show ?thesis using True by auto
next
  case False
  then show ?thesis by (simp add: store_get_def store_exists_def)
qed

lemma store_get_exists: "store_get st p p \<noteq> None"
  by (simp add: store_get_apply)

lemma store_get_noop: "store_exists st p \<Longrightarrow> store_get st p = st"
  by (simp add: store_get_def)

lemma store_get_keeps: "st q = Some s \<Longrightarrow> store_get st p q = Some s"
  by (simp add: store_get_apply)

lemma one_client_eq:
  "one_client =
     ([[''''] \<mapsto> (new_session [''''])\<lparr>listeners := {7}\<rparr>],
      \<lparr>ID = 7, path = [''''], session = [''''], sel = None\<rparr>)"
  by (simp add: one_client_def initServer_def initContext_def client_def store_get_def
      store_exists_def ancestors_def touch_def upd_session_def new_session_def)

subsection \<open>The loop of cd\<close>

lemma cd_loop_nocreate: "cd_loop st False temp segs = (r, st') \<Longrightarrow> st' = st"
proof (induction segs arbitrary: temp)
  case Nil
  then show ?case by simp
next
  case (Cons s segs)
  then show ?case
    by (auto simp: Let_def store_get_noop split: if_splits)
qed

lemma cd_loop_create: "cd_loop st True temp segs \<noteq> (Inl (DirectoryNotFoundError t), st')"
  by (induction segs arbitrary: st temp) (auto simp: Let_def)

lemma cd_migrate_not_notfound: "fst (cd_migrate st c temp) \<noteq> Inl (DirectoryNotFoundError t)"
  by (auto simp: cd_migrate_def Let_def split: option.splits)

subsection \<open>Operations without a selected dataset\<close>

lemma getDataset_none: "sel c = None \<Longrightarrow> getDataset st c = Inl NoDatasetError"
  by (simp add: getDataset_def)

text \<open>
  Claim C6. When the calling context has no dataset selected, each of \<^verbatim>\<open>add\<close>,
  \<^verbatim>\<open>get\<close>, \<^verbatim>\<open>variables\<close>, \<^verbatim>\<open>parameters\<close>, \<^verbatim>\<open>add_parameter\<close>, \<^verbatim>\<open>add_parameters\<close>,
  \<^verbatim>\<open>get_name\<close>, \<^verbatim>\<open>get_parameter\<close>, \<^verbatim>\<open>get_parameters\<close>, \<^verbatim>\<open>add_comment\<close> and
  \<^verbatim>\<open>get_comments\<close> raises \<^verbatim>\<open>NoDatasetError\<close> and leaves the store and the context as
  they were.
\<close>

theorem no_dataset_open:
  assumes "sel c = None"
  shows "add st c data = (Inl NoDatasetError, st, c) \<and>
         get st c limit startOver = (Inl NoDatasetError, st, c) \<and>
         variables st c = (Inl NoDatasetError, st, c) \<and>
         parameters_names st c = (Inl NoDatasetError, st, c) \<and>
         add_parameter st c nm v = (Inl NoDatasetError, st, c) \<and>
         add_parameters st c params = (Inl NoDatasetError, st, c) \<and>
         get_name st c = (Inl NoDatasetError, st, c) \<and>
         get_parameter st c nm case_sensitive = (Inl NoDatasetError, st, c) \<and>
         get_parameters st c = (Inl NoDatasetError, st, c) \<and>
         add_comment st c now comment user = (Inl NoDatasetError, st, c) \<and>
         get_comments st c limit startOver = (Inl NoDatasetError, st, c)"
  using assms
  by (simp add: getDataset_none add_def get_def variables_def parameters_names_def
      add_parameter_def add_parameters_def get_name_def get_parameter_def get_parameters_def
      add_comment_def get_comments_def)

theorem no_dataset_open_witness:
  "sel (snd one_client) = None \<and>
   add (fst one_client) (snd one_client) [[1, 2]] = (Inl NoDatasetError, one_client) \<and>
   get (fst one_client) (snd one_client) None False = (Inl NoDatasetError, one_client) \<and>
   get_comments (fst one_client) (snd one_client) (Some 3) True = (Inl NoDatasetError, one_client)"
proof -
  have h: "sel (snd one_client) = None"
    by (simp add: one_client_eq)
  show ?thesis
    using h no_dataset_open [OF h, of "fst one_client" "[[1, 2]]" None False]
      no_dataset_open [OF h, of "fst one_client" _ "Some 3" True]
    by simp
qed

subsection \<open>mkdir\<close>

text \<open>
  Claim C8. \<^verbatim>\<open>mkdir(name)\<close> raises \<^verbatim>\<open>EmptyNameError\<close> for the empty name and
  \<^verbatim>\<open>DirectoryExistsError\<close> when the current path extended by the name exists in the
  store, both without a change of state; otherwise it returns the extended path, which
  exists in the store afterwards, every session that was there is as it was, and the
  context (its path and its session) is unchanged.
\<close>

theorem mkdir_outcomes:
  "(nm = '''' \<longrightarrow> mkdir st c nm = (Inl EmptyNameError, st, c)) \<and>
   (nm \<noteq> '''' \<and> store_exists st (path c @ [nm]) \<longrightarrow>
      mkdir st c nm = (Inl (DirectoryExistsError (path c @ [nm])), st, c)) \<and>
   (nm \<noteq> '''' \<and> \<not> store_exists st (path c @ [nm]) \<longrightarrow>
      (\<exists>st'. mkdir st c nm = (Inr (path c @ [nm]), st', c) \<and>
             store_exists st' (path c @ [nm]) \<and>
             (\<forall>q s. st q = Some s \<longrightarrow> st' q = Some s)))"
  by (simp add: mkdir_def Let_def store_get_apply store_exists_def)

theorem mkdir_outcomes_witness:
  "mkdir (fst one_client) (snd one_client) [] = (Inl EmptyNameError, one_client) \<and>
   ''a'' \<noteq> [] \<and> \<not> store_exists (fst one_client) (path (snd one_client) @ [''a'']) \<and>
   fst (mkdir (fst one_client) (snd one_client) ''a'') = Inr ['''', ''a''] \<and>
   store_exists (fst (snd (mkdir (fst one_client) (snd one_client) ''a''))) ['''', ''a''] \<and>
   snd (snd (mkdir (fst one_client) (snd one_client) ''a'')) = snd one_client \<and>
   store_exists (store_get (fst one_client) ['''', ''a'']) (path (snd one_client) @ [''a'']) \<and>
   fst (mkdir (store_get (fst one_client) ['''', ''a'']) (snd one_client) ''a'') =
     Inl (DirectoryExistsError ['''', ''a''])"
proof -
  have p: "path (snd one_client) @ [''a''] = ['''', ''a'']"
    by (simp add: one_client_eq)
  have n: "\<not> store_exists (fst one_client) ['''', ''a'']"
    by (simp add: one_client_eq store_exists_def)
  have y: "store_exists (store_get (fst one_client) ['''', ''a'']) ['''', ''a'']"
    using store_get_exists [of "fst one_client" "['''', ''a'']"] by (simp add: store_exists_def)
  show ?thesis
    using mkdir_outcomes [of "[]" "fst one_client" "snd one_client"]
      mkdir_outcomes [of "''a''" "fst one_client" "snd one_client"]
      mkdir_outcomes [of "''a''" "store_get (fst one_client) ['''', ''a'']" "snd one_client"]
      p n y
    by auto
qed

subsection \<open>A cd that finds no directory\<close>

text \<open>
  Claim C10. A \<^verbatim>\<open>cd\<close> that raises \<^verbatim>\<open>DirectoryNotFoundError\<close> leaves the whole store,
  so the listener set of every session, and the context, so its path and its session
  reference, exactly as they were before the call.
\<close>

theorem cd_not_found_unchanged:
  assumes "cd st c arg create = (Inl (DirectoryNotFoundError t), st', c')"
  shows "st' = st \<and> c' = c"
proof -
  have mig: "\<And>s temp. cd_migrate s c temp \<noteq> (Inl (DirectoryNotFoundError t), st', c')"
    using cd_migrate_not_notfound by (metis fst_conv)
  have loop: "st' = st \<and> c' = c"
    if a: "(case cd_loop st create (path c) segs of
             (Inl e, st') \<Rightarrow> (Inl e, st', c)
           | (Inr temp, st') \<Rightarrow> cd_migrate st' c temp) = (Inl (DirectoryNotFoundError t), st', c')"
    for segs
  proof -
    obtain r s1 where l: "cd_loop st create (path c) segs = (r, s1)"
      by (cases "cd_loop st create (path c) segs")
    show ?thesis
    proof (cases r)
      case (Inl e)
      with a l have e: "e = DirectoryNotFoundError t" "s1 = st'" "c' = c" by auto
      have "\<not> create"
        using l Inl e cd_loop_create[of st "path c" segs t st'] by (cases create) auto
      then have "s1 = st" using l cd_loop_nocreate by simp
      with e show ?thesis by simp
    next
      case (Inr temp)
      with a l mig show ?thesis by auto
    qed
  qed
  show ?thesis
  proof (cases arg)
    case NoPath
    with assms show ?thesis by (simp add: cd_def)
  next
    case (Levels n)
    with assms mig show ?thesis by (simp add: cd_def Let_def)
  next
    case (Segment s)
    with assms loop[of "[s]"] show ?thesis by (simp add: cd_def)
  next
    case (Segments segs)
    with assms loop[of segs] show ?thesis by (simp add: cd_def)
  qed
qed

theorem cd_not_found_unchanged_witness:
  "cd (fst one_client) (snd one_client) (Segments [''a'', ''b'']) False =
     (Inl (DirectoryNotFoundError ['''', ''a'']), one_client) \<and>
   listeners (the (fst one_client [''''])) = {7} \<and> path (snd one_client) = ['''']"
proof -
  obtain r st' c' where e: "cd (fst one_client) (snd one_client) (Segments [''a'', ''b'']) False = (r, st', c')"
    by (cases "cd (fst one_client) (snd one_client) (Segments [''a'', ''b'']) False")
  have r: "r = Inl (DirectoryNotFoundError ['''', ''a''])"
    using e by (simp add: one_client_eq cd_def cd_step_def store_exists_def)
  have "st' = fst one_client \<and> c' = snd one_client"
    using cd_not_found_unchanged [of "fst one_client" "snd one_client" "Segments [''a'', ''b'']" False "['''', ''a'']" st' c']
      e r by simp
  with e r show ?thesis
    by (simp add: one_client_eq new_session_def)
qed

subsection \<open>Resolving the path of cd\<close>

lemma listeners_at_store_get: "listeners_at (store_get st p) q = listeners_at st q"
  by (simp add: listeners_at_def store_get_apply new_session_def)

lemma cd_loop_keeps: "cd_loop st create temp segs = (r, st1) \<Longrightarrow> st q = Some s \<Longrightarrow> st1 q = Some s"
proof (induction segs arbitrary: st temp)
  case Nil
  then show ?case by simp
next
  case (Cons a segs)
  then show ?case
    by (auto simp: Let_def store_get_keeps split: if_splits)
qed

lemma cd_loop_listeners: "cd_loop st create temp segs = (r, st1) \<Longrightarrow> listeners_at st1 q = listeners_at st q"
proof (induction segs arbitrary: st temp)
  case Nil
  then show ?case by simp
next
  case (Cons a segs)
  then show ?case
    by (auto simp: Let_def listeners_at_store_get split: if_splits)
qed

lemma cd_loop_path: "cd_loop st create temp segs = (Inr t, st1) \<Longrightarrow> t = foldl cd_step temp segs"
  by (induction segs arbitrary: st temp) (auto simp: Let_def split: if_splits)

lemma cd_loop_created:
  "cd_loop st True temp segs = (r, st1) \<Longrightarrow> t \<in> set (cd_temps temp segs) \<Longrightarrow> st1 t \<noteq> None"
proof (induction segs arbitrary: st temp)
  case Nil
  then show ?case by simp
next
  case (Cons a segs)
  from Cons.prems(1) have l: "cd_loop (store_get st (cd_step temp a)) True (cd_step temp a) segs = (r, st1)"
    by (simp add: Let_def)
  show ?case
  proof (cases "t = cd_step temp a")
    case True
    obtain s where "store_get st (cd_step temp a) (cd_step temp a) = Some s"
      using store_get_exists by fastforce
    from cd_loop_keeps[OF l this] True show ?thesis by simp
  next
    case False
    with Cons.prems(2) have "t \<in> set (cd_temps (cd_step temp a) segs)" by simp
    from Cons.IH[OF l this] show ?thesis .
  qed
qed

lemma cd_loop_missing:
  "\<exists>t\<in>set (cd_temps temp segs). st t = None \<Longrightarrow>
   \<exists>t\<in>set (cd_temps temp segs). st t = None \<and> cd_loop st False temp segs = (Inl (DirectoryNotFoundError t), st)"
proof (induction segs arbitrary: temp)
  case Nil
  then show ?case by simp
next
  case (Cons a segs)
  show ?case
  proof (cases "st (cd_step temp a) = None")
    case True
    then show ?thesis by (simp add: Let_def store_exists_def)
  next
    case False
    with Cons.prems have "\<exists>t\<in>set (cd_temps (cd_step temp a) segs). st t = None" by auto
    from Cons.IH[OF this] False show ?thesis
      by (auto simp: Let_def store_exists_def store_get_noop)
  qed
qed

lemma cd_migrate_same: "path c = temp \<Longrightarrow> cd_migrate st c temp = (Inr temp, st, c)"
  by (simp add: cd_migrate_def)

lemma cd_migrate_moves:
  assumes "st (session c) = Some old" and "ID c \<in> listeners old" and "path c \<noteq> temp"
  shows "\<exists>st'. cd_migrate st c temp = (Inr temp, st', c\<lparr>session := temp, path := temp\<rparr>) \<and>
           (\<forall>q. st q \<noteq> None \<longrightarrow> st' q \<noteq> None) \<and> st' temp \<noteq> None \<and>
           (\<forall>q. listeners_at st' q =
                 (if q = temp then insert (ID c) (listeners_at st q)
                  else if q = session c then listeners_at st q - {ID c}
                  else listeners_at st q))"
  using assms
  by (auto simp: cd_migrate_def Let_def upd_session_def store_get_apply listeners_at_def new_session_def
      split: option.splits)

subsection \<open>The listener migration of cd\<close>

lemma cd_loop_error: "cd_loop st create temp segs = (Inl e, st1) \<Longrightarrow> \<exists>t. e = DirectoryNotFoundError t"
  by (induction segs arbitrary: st temp) (auto simp: Let_def split: if_splits)

lemma subscribed_session:
  assumes "\<forall>p. k \<in> listeners_at st p \<longleftrightarrow> p = q"
  shows "\<exists>old. st q = Some old \<and> k \<in> listeners old"
proof -
  from assms have "k \<in> listeners_at st q" by simp
  then show ?thesis by (auto simp: listeners_at_def split: option.splits)
qed

lemma cd_migrate_inv:
  assumes own: "session c = path c"
      and sub: "\<forall>p. ID c \<in> listeners_at st p \<longleftrightarrow> p = session c"
      and run: "cd_migrate st c temp = (r, st', c')"
  shows "r = Inr temp \<and> path c' = temp \<and> session c' = temp \<and> ID c' = ID c \<and>
         (\<forall>p. ID c \<in> listeners_at st' p \<longleftrightarrow> p = temp) \<and>
         (temp \<noteq> path c \<longrightarrow>
            (\<forall>p. listeners_at st' p =
                 (if p = temp then insert (ID c) (listeners_at st p)
                  else if p = path c then listeners_at st p - {ID c}
                  else listeners_at st p))) \<and>
         (temp = path c \<longrightarrow> st' = st \<and> c' = c)"
proof (cases "path c = temp")
  case True
  with run own sub show ?thesis by (auto simp: cd_migrate_same)
next
  case False
  obtain old where old: "st (session c) = Some old" "ID c \<in> listeners old"
    using subscribed_session[OF sub] by blast
  from cd_migrate_moves[where st=st and c=c and old=old and temp=temp, OF old False] run obtain
    m: "r = Inr temp" "c' = c\<lparr>session := temp, path := temp\<rparr>"
      "\<forall>q. listeners_at st' q =
                 (if q = temp then insert (ID c) (listeners_at st q)
                  else if q = session c then listeners_at st q - {ID c}
                  else listeners_at st q)"
    by auto
  have "\<forall>p. ID c \<in> listeners_at st' p \<longleftrightarrow> p = temp"
    using m(3) sub by auto
  with m own False show ?thesis by auto
qed

lemma cd_subscription_kept:
  assumes own: "session c = path c"
      and sub: "\<forall>p. ID c \<in> listeners_at st p \<longleftrightarrow> p = session c"
      and run: "cd st c arg create = (r, st', c')"
  shows "session c' = path c' \<and> ID c' = ID c \<and>
         (\<forall>p. ID c' \<in> listeners_at st' p \<longleftrightarrow> p = session c') \<and>
         r \<noteq> Inl KeyError \<and>
         (\<forall>t. r = Inr t \<longrightarrow> path c' = t \<and>
            (t \<noteq> path c \<longrightarrow>
               (\<forall>p. listeners_at st' p =
                    (if p = t then insert (ID c) (listeners_at st p)
                     else if p = path c then listeners_at st p - {ID c}
                     else listeners_at st p))) \<and>
            (t = path c \<longrightarrow> (\<forall>p. listeners_at st' p = listeners_at st p)))"
proof -
  have direct: ?thesis if "cd_migrate st c temp = (r, st', c')" for temp
    using cd_migrate_inv[OF own sub that] by auto
  have looped: ?thesis
    if c: "(case cd_loop st create (path c) segs of
             (Inl e, st') \<Rightarrow> (Inl e, st', c)
           | (Inr temp, st') \<Rightarrow> cd_migrate st' c temp) = (r, st', c')" for segs
  proof -
    obtain r1 st1 where l: "cd_loop st create (path c) segs = (r1, st1)"
      by (cases "cd_loop st create (path c) segs")
    have same: "\<forall>p. listeners_at st1 p = listeners_at st p"
      using cd_loop_listeners[OF l] by simp
    show ?thesis
    proof (cases r1)
      case (Inl e)
      with c l have "r = Inl e" "st' = st1" "c' = c" by auto
      moreover obtain t where "e = DirectoryNotFoundError t"
        using cd_loop_error l Inl by blast
      ultimately show ?thesis using own sub same by auto
    next
      case (Inr temp)
      with c l have m: "cd_migrate st1 c temp = (r, st', c')" by simp
      have sub1: "\<forall>p. ID c \<in> listeners_at st1 p \<longleftrightarrow> p = session c"
        using sub same by simp
      from cd_migrate_inv[OF own sub1 m] same show ?thesis by auto
    qed
  qed
  show ?thesis
  proof (cases arg)
    case NoPath
    with run own sub show ?thesis by (auto simp: cd_def)
  next
    case (Levels n)
    with run have "cd_migrate st c (if n > 0
                       then (let t = take (length (path c) - nat n) (path c) in if length t = 0 then [''''] else t)
                       else path c) = (r, st', c')"
      by (simp add: cd_def Let_def)
    then show ?thesis by (rule direct)
  next
    case (Segment s)
    with run have "(case cd_loop st create (path c) [s] of
             (Inl e, st') \<Rightarrow> (Inl e, st', c)
           | (Inr temp, st') \<Rightarrow> cd_migrate st' c temp) = (r, st', c')"
      by (simp add: cd_def del: cd_loop.simps)
    then show ?thesis by (rule looped)
  next
    case (Segments segs)
    with run have "(case cd_loop st create (path c) segs of
             (Inl e, st') \<Rightarrow> (Inl e, st', c)
           | (Inr temp, st') \<Rightarrow> cd_migrate st' c temp) = (r, st', c')"
      by (simp add: cd_def del: cd_loop.simps)
    then show ?thesis by (rule looped)
  qed
qed

lemma cd_loop_fails:
  "cd_loop st create temp segs = (Inl e, st1) \<Longrightarrow>
   \<not> create \<and> st1 = st \<and>
   (\<exists>q\<in>set (cd_temps temp segs). e = DirectoryNotFoundError q \<and> \<not> store_exists st q)"
proof (induction segs arbitrary: temp)
  case Nil
  then show ?case by simp
next
  case (Cons a segs)
  show ?case
  proof (cases "store_exists st (cd_step temp a)")
    case True
    with Cons.prems have "cd_loop st create (cd_step temp a) segs = (Inl e, st1)"
      by (simp add: Let_def store_get_noop)
    from Cons.IH[OF this] show ?thesis by auto
  next
    case False
    show ?thesis
    proof (cases create)
      case True
      with Cons.prems cd_loop_create[of "store_get st (cd_step temp a)" "cd_step temp a" segs]
        cd_loop_error[of "store_get st (cd_step temp a)" True "cd_step temp a" segs e st1]
      show ?thesis by (auto simp: Let_def)
    next
      case nc: False
      with False Cons.prems show ?thesis by (auto simp: Let_def)
    qed
  qed
qed

lemma cd_loop_resolves:
  assumes "create \<or> (\<forall>q\<in>set (cd_temps temp segs). store_exists st q)"
  shows "\<exists>st1. cd_loop st create temp segs = (Inr (foldl cd_step temp segs), st1)"
proof -
  obtain r1 st1 where l: "cd_loop st create temp segs = (r1, st1)"
    by (cases "cd_loop st create temp segs")
  show ?thesis
  proof (cases r1)
    case (Inl e)
    with l cd_loop_fails[of st create temp segs e st1] assms show ?thesis by auto
  next
    case (Inr t)
    with l cd_loop_path[of st create temp segs t st1] show ?thesis by auto
  qed
qed

lemma cd_levels_temp:
  "(if n > 0 then (let t = take (length p - nat n) p in if length t = 0 then [''''] else t) else p) =
   cd_resolved p (Levels n)"
  by (auto simp: cd_resolved_def Let_def)

lemma cd_outcome:
  assumes own: "session c = path c"
      and sub: "\<forall>p. ID c \<in> listeners_at st p \<longleftrightarrow> p = session c"
      and run: "cd st c arg create = (r, st', c')"
  shows "(r = Inr (cd_resolved (path c) arg) \<and> path c' = cd_resolved (path c) arg \<and>
            session c' = cd_resolved (path c) arg \<and> ID c' = ID c \<and>
            (\<forall>p. ID c \<in> listeners_at st' p \<longleftrightarrow> p = cd_resolved (path c) arg) \<and>
            (cd_resolved (path c) arg \<noteq> path c \<longrightarrow>
               (\<forall>p. listeners_at st' p =
                    (if p = cd_resolved (path c) arg then insert (ID c) (listeners_at st p)
                     else if p = path c then listeners_at st p - {ID c}
                     else listeners_at st p))) \<and>
            (cd_resolved (path c) arg = path c \<longrightarrow> (\<forall>p. listeners_at st' p = listeners_at st p))) \<or>
         (\<not> create \<and> st' = st \<and> c' = c \<and>
            (\<exists>q\<in>set (cd_intermediate (path c) arg).
                r = Inl (DirectoryNotFoundError q) \<and> \<not> store_exists st q))"
proof -
  let ?T = "cd_resolved (path c) arg"
  have direct: ?thesis if m: "cd_migrate st c ?T = (r, st', c')"
    using cd_migrate_inv[OF own sub m] by auto
  have looped: ?thesis
    if c: "(case cd_loop st create (path c) segs of
             (Inl e, st') \<Rightarrow> (Inl e, st', c)
           | (Inr temp, st') \<Rightarrow> cd_migrate st' c temp) = (r, st', c')"
      and T: "?T = foldl cd_step (path c) segs"
      and I: "cd_intermediate (path c) arg = cd_temps (path c) segs" for segs
  proof -
    obtain r1 st1 where l: "cd_loop st create (path c) segs = (r1, st1)"
      by (cases "cd_loop st create (path c) segs")
    have same: "\<forall>p. listeners_at st1 p = listeners_at st p"
      using cd_loop_listeners[OF l] by simp
    show ?thesis
    proof (cases r1)
      case (Inl e)
      with c l have "r = Inl e" "st' = st1" "c' = c" by auto
      with cd_loop_fails[of st create "path c" segs e st1] l Inl I show ?thesis by auto
    next
      case (Inr temp)
      with c l have m: "cd_migrate st1 c temp = (r, st', c')" by simp
      have temp: "temp = ?T"
        using cd_loop_path[of st create "path c" segs temp st1] l Inr T by simp
      have sub1: "\<forall>p. ID c \<in> listeners_at st1 p \<longleftrightarrow> p = session c"
        using sub same by simp
      from cd_migrate_inv[OF own sub1 m] same temp show ?thesis by auto
    qed
  qed
  show ?thesis
  proof (cases arg)
    case NoPath
    with run own sub show ?thesis by (auto simp: cd_def cd_resolved_def)
  next
    case (Levels n)
    with run have "cd_migrate st c ?T = (r, st', c')"
      by (simp add: cd_def cd_levels_temp[symmetric] Let_def)
    then show ?thesis by (rule direct)
  next
    case (Segment s)
    with run have "(case cd_loop st create (path c) [s] of
             (Inl e, st') \<Rightarrow> (Inl e, st', c)
           | (Inr temp, st') \<Rightarrow> cd_migrate st' c temp) = (r, st', c')"
      by (simp add: cd_def del: cd_loop.simps)
    then show ?thesis
      by (rule looped) (simp_all add: Segment cd_resolved_def cd_intermediate_def)
  next
    case (Segments segs)
    with run have "(case cd_loop st create (path c) segs of
             (Inl e, st') \<Rightarrow> (Inl e, st', c)
           | (Inr temp, st') \<Rightarrow> cd_migrate st' c temp) = (r, st', c')"
      by (simp add: cd_def del: cd_loop.simps)
    then show ?thesis
      by (rule looped) (simp_all add: Segments cd_resolved_def cd_intermediate_def)
  qed
qed

text \<open>
  Claim C1. Take a context that is recorded in its session (\<open>session c = path c\<close>) and
  whose key is in the listener set of that session and of no other. A \<^verbatim>\<open>cd\<close> of that
  context either returns the path \<open>t\<close> that its argument resolves to, or, without the
  create flag and with a missing intermediate path, raises \<^verbatim>\<open>DirectoryNotFoundError\<close>
  and changes nothing; with the create flag, or when every intermediate path exists, it
  is the first. When it returns, the context records \<open>t\<close> as its path and its session;
  when \<open>t\<close> differs from the old path, the listener sets are the old ones except that the
  key has left the set of the old session and joined the set of the session of \<open>t\<close>; when
  \<open>t\<close> is the old path, every listener set is as before. In every case the key is
  afterwards subscribed to exactly the session recorded in the context, never to none
  and never to two, and \<^verbatim>\<open>cd\<close> does not raise \<^verbatim>\<open>KeyError\<close>.
\<close>

theorem cd_listener_migration:
  assumes own: "session c = path c"
      and sub: "\<forall>p. ID c \<in> listeners_at st p \<longleftrightarrow> p = session c"
      and run: "cd st c arg create = (r, st', c')"
  shows "session c' = path c' \<and> ID c' = ID c \<and>
         (\<forall>p. ID c' \<in> listeners_at st' p \<longleftrightarrow> p = session c') \<and>
         r \<noteq> Inl KeyError \<and>
         (\<forall>t. r = Inr t \<longrightarrow> path c' = t \<and>
            (t \<noteq> path c \<longrightarrow>
               (\<forall>p. listeners_at st' p =
                    (if p = t then insert (ID c) (listeners_at st p)
                     else if p = path c then listeners_at st p - {ID c}
                     else listeners_at st p))) \<and>
            (t = path c \<longrightarrow> (\<forall>p. listeners_at st' p = listeners_at st p))) \<and>
         ((r = Inr (cd_resolved (path c) arg) \<and> path c' = cd_resolved (path c) arg \<and>
            session c' = cd_resolved (path c) arg \<and>
            (\<forall>p. ID c \<in> listeners_at st' p \<longleftrightarrow> p = cd_resolved (path c) arg) \<and>
            (cd_resolved (path c) arg \<noteq> path c \<longrightarrow>
               (\<forall>p. listeners_at st' p =
                    (if p = cd_resolved (path c) arg then insert (ID c) (listeners_at st p)
                     else if p = path c then listeners_at st p - {ID c}
                     else listeners_at st p))) \<and>
            (cd_resolved (path c) arg = path c \<longrightarrow> (\<forall>p. listeners_at st' p = listeners_at st p))) \<or>
          (\<not> create \<and> st' = st \<and> c' = c \<and>
            (\<exists>q\<in>set (cd_intermediate (path c) arg).
                r = Inl (DirectoryNotFoundError q) \<and> \<not> store_exists st q))) \<and>
         (create \<or> (\<forall>q\<in>set (cd_intermediate (path c) arg). store_exists st q) \<longrightarrow>
            r = Inr (cd_resolved (path c) arg))"
proof -
  note a = cd_subscription_kept [OF own sub run]
  note b = cd_outcome [OF own sub run]
  have "r = Inr (cd_resolved (path c) arg)"
    if "create \<or> (\<forall>q\<in>set (cd_intermediate (path c) arg). store_exists st q)"
    using b that by blast
  with a b show ?thesis by blast
qed

subsection \<open>Going up, the root segment, missing and created directories\<close>

lemma cd_Segment: "cd st c (Segment s) create = cd st c (Segments [s]) create"
  by (simp add: cd_def)

lemma cd_loop_create_ok: "\<exists>st1. cd_loop st True temp segs = (Inr (foldl cd_step temp segs), st1)"
  by (induction segs arbitrary: st temp) (auto simp: Let_def)

lemma cd_migrate_ok:
  assumes "st (session c) = Some old" and "ID c \<in> listeners old"
  shows "fst (cd_migrate st c temp) = Inr temp \<and> path (snd (snd (cd_migrate st c temp))) = temp"
proof (cases "path c = temp")
  case True
  then show ?thesis by (simp add: cd_migrate_same)
next
  case False
  from cd_migrate_moves[where st=st and c=c and old=old and temp=temp, OF assms False]
  show ?thesis by auto
qed

lemma cd_migrate_keeps: "st q \<noteq> None \<Longrightarrow> fst (snd (cd_migrate st c temp)) q \<noteq> None"
  by (auto simp: cd_migrate_def Let_def upd_session_def store_get_apply split: option.splits)

lemma foldl_cd_step_root: "foldl cd_step temp (a @ '''' # b) = foldl cd_step [''''] b"
  by (simp add: cd_step_def)

text \<open>
  Claim C4. For a context whose key is in the listener set of its session: \<^verbatim>\<open>cd(n)\<close>
  with \<open>n > 0\<close> returns and records the path without its last \<open>n\<close> segments, and the root
  \<^verbatim>\<open>['']\<close> when \<open>n\<close> is at least the number of segments; \<^verbatim>\<open>cd(0)\<close> changes nothing and
  returns the path; and when the list of segments holds an empty segment, the resolved
  path is what the segments after it give from the root: a \<^verbatim>\<open>cd\<close> that returns returns
  and records that path, and with the create flag \<^verbatim>\<open>cd\<close> does return.
\<close>

theorem cd_levels_and_root:
  assumes sub: "ID c \<in> listeners_at st (session c)"
  shows "(0 < n \<longrightarrow>
            fst (cd st c (Levels n) create) =
              Inr (if length (path c) \<le> nat n then [''''] else take (length (path c) - nat n) (path c)) \<and>
            path (snd (snd (cd st c (Levels n) create))) =
              (if length (path c) \<le> nat n then [''''] else take (length (path c) - nat n) (path c))) \<and>
         (n \<le> 0 \<longrightarrow> cd st c (Levels n) create = (Inr (path c), st, c)) \<and>
         (\<forall>t st' c'. cd st c (Segments (a @ '''' # b)) create = (Inr t, st', c') \<longrightarrow>
            t = foldl cd_step [''''] b \<and> path c' = t) \<and>
         fst (cd st c (Segments (a @ '''' # b)) True) = Inr (foldl cd_step [''''] b) \<and>
         path (snd (snd (cd st c (Segments (a @ '''' # b)) True))) = foldl cd_step [''''] b"
proof -
  from sub obtain old where assms: "st (session c) = Some old" "ID c \<in> listeners old"
    by (auto simp: listeners_at_def split: option.splits)
  let ?T = "if length (path c) \<le> nat n then [''''] else take (length (path c) - nat n) (path c)"
  have up: "cd st c (Levels n) create = cd_migrate st c ?T" if "0 < n"
    using that by (auto simp: cd_def Let_def)
  have zero: "cd st c (Levels n) create = (Inr (path c), st, c)" if "n \<le> 0"
    using that by (simp add: cd_def Let_def cd_migrate_same)
  have any: "t = foldl cd_step [''''] b \<and> path c' = t"
    if r: "cd st c (Segments (a @ '''' # b)) create = (Inr t, st', c')" for t st' c'
  proof -
    obtain r1 st1 where l: "cd_loop st create (path c) (a @ '''' # b) = (r1, st1)"
      by (cases "cd_loop st create (path c) (a @ '''' # b)")
    from r l obtain temp where t: "r1 = Inr temp" and m: "cd_migrate st1 c temp = (Inr t, st', c')"
      by (cases r1) (auto simp: cd_def simp del: cd_loop.simps)
    from l t have "temp = foldl cd_step (path c) (a @ '''' # b)"
      using cd_loop_path by blast
    then have temp: "temp = foldl cd_step [''''] b" by (simp only: foldl_cd_step_root)
    have o: "st1 (session c) = Some old" using cd_loop_keeps[OF l assms(1)] .
    from cd_migrate_ok[where st=st1 and c=c and old=old and temp=temp, OF o assms(2)] m temp show ?thesis by simp
  qed
  have made: "fst (cd st c (Segments (a @ '''' # b)) True) = Inr (foldl cd_step [''''] b) \<and>
         path (snd (snd (cd st c (Segments (a @ '''' # b)) True))) = foldl cd_step [''''] b"
  proof -
    obtain st1 where l: "cd_loop st True (path c) (a @ '''' # b) = (Inr (foldl cd_step (path c) (a @ '''' # b)), st1)"
      using cd_loop_create_ok by blast
    have o: "st1 (session c) = Some old" using cd_loop_keeps[OF l assms(1)] .
    have "cd st c (Segments (a @ '''' # b)) True = cd_migrate st1 c (foldl cd_step (path c) (a @ '''' # b))"
      using l by (simp add: cd_def del: cd_loop.simps)
    with cd_migrate_ok[where st=st1 and c=c and old=old and temp="foldl cd_step (path c) (a @ '''' # b)", OF o assms(2)]
    show ?thesis by (simp only: foldl_cd_step_root)
  qed
  from up zero any made cd_migrate_ok[where st=st and c=c and old=old and temp="?T", OF assms] show ?thesis
    by (simp del: cd_loop.simps) 
qed

lemma cd_never_not_found_create: "fst (cd st c arg True) \<noteq> Inl (DirectoryNotFoundError t)"
proof -
  have looped: "fst (case cd_loop st True (path c) segs of
             (Inl e, st') \<Rightarrow> (Inl e, st', c)
           | (Inr temp, st') \<Rightarrow> cd_migrate st' c temp) \<noteq> Inl (DirectoryNotFoundError t)" for segs
  proof -
    obtain st1 where "cd_loop st True (path c) segs = (Inr (foldl cd_step (path c) segs), st1)"
      using cd_loop_create_ok by blast
    then show ?thesis by (simp add: cd_migrate_not_notfound del: cd_loop.simps)
  qed
  show ?thesis
  proof (cases arg)
    case NoPath
    then show ?thesis by (simp add: cd_def)
  next
    case (Levels n)
    then show ?thesis by (simp add: cd_def Let_def cd_migrate_not_notfound)
  next
    case (Segment s)
    with looped[of "[s]"] show ?thesis by (simp add: cd_def del: cd_loop.simps)
  next
    case (Segments segs)
    with looped[of segs] show ?thesis by (simp add: cd_def del: cd_loop.simps)
  qed
qed

text \<open>
  Claim C5. Without the create flag, when one of the intermediate resolved paths of the
  list of segments does not exist in the store, \<^verbatim>\<open>cd\<close> raises
  \<^verbatim>\<open>DirectoryNotFoundError\<close> for such a path and changes nothing. With the create flag,
  \<^verbatim>\<open>cd\<close> never raises \<^verbatim>\<open>DirectoryNotFoundError\<close>, whatever its argument, and every
  intermediate resolved path exists in the store afterwards.
\<close>

theorem cd_not_found_or_created:
  "((\<exists>t\<in>set (cd_temps (path c) segs). \<not> store_exists st t) \<longrightarrow>
      (\<exists>t\<in>set (cd_temps (path c) segs). \<not> store_exists st t \<and>
          cd st c (Segments segs) False = (Inl (DirectoryNotFoundError t), st, c))) \<and>
   (\<forall>t. fst (cd st c arg True) \<noteq> Inl (DirectoryNotFoundError t)) \<and>
   (\<forall>t\<in>set (cd_temps (path c) segs). store_exists (fst (snd (cd st c (Segments segs) True))) t)"
proof -
  have missing: "\<exists>t\<in>set (cd_temps (path c) segs). \<not> store_exists st t \<and>
          cd st c (Segments segs) False = (Inl (DirectoryNotFoundError t), st, c)"
    if "\<exists>t\<in>set (cd_temps (path c) segs). \<not> store_exists st t"
  proof -
    from that have "\<exists>t\<in>set (cd_temps (path c) segs). st t = None"
      by (simp add: store_exists_def)
    from cd_loop_missing[OF this] obtain t where
      "t \<in> set (cd_temps (path c) segs)" "st t = None"
      "cd_loop st False (path c) segs = (Inl (DirectoryNotFoundError t), st)" by blast
    then show ?thesis
      by (auto simp: cd_def store_exists_def simp del: cd_loop.simps)
  qed
  have created: "store_exists (fst (snd (cd st c (Segments segs) True))) t"
    if t: "t \<in> set (cd_temps (path c) segs)" for t
  proof -
    obtain st1 where l: "cd_loop st True (path c) segs = (Inr (foldl cd_step (path c) segs), st1)"
      using cd_loop_create_ok by blast
    have "st1 t \<noteq> None" using cd_loop_created[OF l t] .
    then have "fst (snd (cd_migrate st1 c (foldl cd_step (path c) segs))) t \<noteq> None"
      by (rule cd_migrate_keeps)
    then show ?thesis using l by (simp add: cd_def store_exists_def del: cd_loop.simps)
  qed
  from missing created cd_never_not_found_create show ?thesis by blast
qed

text \<open>
  Claim C9. After a \<^verbatim>\<open>mkdir(name)\<close> that succeeds, the name is not empty, the created
  session exists, and \<^verbatim>\<open>cd([name])\<close> or \<^verbatim>\<open>cd(name)\<close> without the create flag, from the
  same directory, does not raise \<^verbatim>\<open>DirectoryNotFoundError\<close>; for a context whose key is
  in the listener set of its session it returns the created path and records it.
\<close>

theorem mkdir_then_cd:
  assumes "mkdir st c nm = (Inr p, st1, c1)"
  shows "nm \<noteq> '''' \<and> p = path c @ [nm] \<and> store_exists st1 p \<and>
         (\<forall>t. fst (cd st1 c1 (Segments [nm]) False) \<noteq> Inl (DirectoryNotFoundError t)) \<and>
         (\<forall>t. fst (cd st1 c1 (Segment nm) False) \<noteq> Inl (DirectoryNotFoundError t)) \<and>
         (ID c \<in> listeners_at st (session c) \<longrightarrow>
            fst (cd st1 c1 (Segments [nm]) False) = Inr p \<and>
            path (snd (snd (cd st1 c1 (Segments [nm]) False))) = p)"
proof -
  from assms have nm: "nm \<noteq> []" and p: "p = path c @ [nm]" and c1: "c1 = c"
    and st1: "st1 = store_get st p"
    by (auto simp: mkdir_def Let_def split: if_splits)
  have ex: "st1 p \<noteq> None" using st1 store_get_exists by simp
  have step: "cd_step (path c) nm = p" using nm p by (simp add: cd_step_def)
  have ex': "store_exists st1 p" using ex by (simp add: store_exists_def)
  have run: "cd st1 c1 (Segments [nm]) False = cd_migrate st1 c p"
    by (simp add: cd_def Let_def step c1 ex' store_get_noop[OF ex'])
  have nf: "\<forall>t. fst (cd st1 c1 (Segments [nm]) False) \<noteq> Inl (DirectoryNotFoundError t)"
    using run cd_migrate_not_notfound by simp
  have ok: "fst (cd st1 c1 (Segments [nm]) False) = Inr p \<and>
            path (snd (snd (cd st1 c1 (Segments [nm]) False))) = p"
    if sub: "ID c \<in> listeners_at st (session c)"
  proof -
    from sub obtain old where that: "st (session c) = Some old" "ID c \<in> listeners old"
      by (auto simp: listeners_at_def split: option.splits)
    have "st1 (session c) = Some old" using that(1) st1 store_get_keeps by simp
    from cd_migrate_ok[where st=st1 and c=c and old=old and temp=p, OF this that(2)] run show ?thesis by simp
  qed
  from nm p ex nf ok show ?thesis by (simp add: cd_Segment store_exists_def)
qed


lemma two_down_context:
  "snd two_down = \<lparr>ID = 7, path = ['''', ''a'', ''b''], session = ['''', ''a'', ''b''], sel = None\<rparr>"
  by (simp add: two_down_def one_client_eq cd_def cd_step_def cd_migrate_def store_exists_def
      store_get_apply Let_def)

lemma two_down_listeners:
  "listeners_at (fst two_down) p = (if p = ['''', ''a'', ''b''] then {7} else {})"
  by (simp add: two_down_def one_client_eq cd_def cd_step_def cd_migrate_def store_exists_def
      store_get_apply Let_def listeners_at_def upd_session_def new_session_def ancestors_def)

theorem cd_listener_migration_witness:
  "session (snd one_client) = path (snd one_client) \<and>
   (\<forall>p. ID (snd one_client) \<in> listeners_at (fst one_client) p \<longleftrightarrow> p = session (snd one_client)) \<and>
   cd_resolved (path (snd one_client)) (Segments [''a'']) = ['''', ''a''] \<and>
   fst (cd (fst one_client) (snd one_client) (Segments [''a'']) True) = Inr ['''', ''a''] \<and>
   listeners_at (fst (snd (cd (fst one_client) (snd one_client) (Segments [''a'']) True))) [''''] = {} \<and>
   listeners_at (fst (snd (cd (fst one_client) (snd one_client) (Segments [''a'']) True))) ['''', ''a''] = {7} \<and>
   path (snd (snd (cd (fst one_client) (snd one_client) (Segments [''a'']) True))) = ['''', ''a''] \<and>
   session (snd (snd (cd (fst one_client) (snd one_client) (Segments [''a'']) True))) = ['''', ''a'']"
proof -
  let ?st = "fst one_client" and ?c = "snd one_client"
  have own: "session ?c = path ?c"
    by (simp add: one_client_eq)
  have sub: "\<forall>p. ID ?c \<in> listeners_at ?st p \<longleftrightarrow> p = session ?c"
    by (simp add: one_client_eq listeners_at_def new_session_def)
  obtain r st' c' where run: "cd ?st ?c (Segments [''a'']) True = (r, st', c')"
    by (cases "cd ?st ?c (Segments [''a'']) True")
  have T: "cd_resolved (path ?c) (Segments [''a'']) = ['''', ''a'']"
    by (simp add: one_client_eq cd_resolved_def cd_step_def)
  have before: "listeners_at ?st [''''] = {7}" "listeners_at ?st ['''', ''a''] = {}" "path ?c = ['''']"
    "ID ?c = 7"
    by (simp_all add: one_client_eq listeners_at_def new_session_def)
  from cd_listener_migration [OF own sub run] have
    "r = Inr (cd_resolved (path ?c) (Segments [''a'']))"
    "path c' = cd_resolved (path ?c) (Segments [''a''])"
    "session c' = path c'"
    "\<forall>p. listeners_at st' p =
         (if p = cd_resolved (path ?c) (Segments [''a'']) then insert (ID ?c) (listeners_at ?st p)
          else if p = path ?c then listeners_at ?st p - {ID ?c}
          else listeners_at ?st p)"
    using T before(3) by auto
  with T before own sub run show ?thesis
    by simp
qed

theorem cd_levels_and_root_witness:
  "ID (snd two_down) \<in> listeners_at (fst two_down) (session (snd two_down)) \<and>
   path (snd two_down) = ['''', ''a'', ''b''] \<and>
   fst (cd (fst two_down) (snd two_down) (Levels 1) False) = Inr ['''', ''a''] \<and>
   fst (cd (fst two_down) (snd two_down) (Levels 2) False) = Inr [''''] \<and>
   fst (cd (fst two_down) (snd two_down) (Levels 3) False) = Inr [''''] \<and>
   fst (cd (fst two_down) (snd two_down) (Levels 9) False) = Inr [''''] \<and>
   cd (fst two_down) (snd two_down) (Levels 0) False = (Inr ['''', ''a'', ''b''], two_down) \<and>
   fst (cd (fst two_down) (snd two_down) (Segments [''x'', '''', ''y'']) True) = Inr ['''', ''y'']"
proof -
  have sub: "ID (snd two_down) \<in> listeners_at (fst two_down) (session (snd two_down))"
    by (simp add: two_down_context two_down_listeners)
  have p: "path (snd two_down) = ['''', ''a'', ''b'']"
    by (simp add: two_down_context)
  have segs: "[''x''] @ [] # [''y''] = [''x'', '''', ''y'']"
    by simp
  have y: "foldl cd_step [''''] [''y''] = ['''', ''y'']"
    by (simp add: cd_step_def)
  show ?thesis
    using sub p
      cd_levels_and_root [OF sub, of 1 False "[''x'']" "[''y'']"]
      cd_levels_and_root [OF sub, of 2 False "[]" "[]"]
      cd_levels_and_root [OF sub, of 3 False "[]" "[]"]
      cd_levels_and_root [OF sub, of 9 False "[]" "[]"]
      cd_levels_and_root [OF sub, of 0 False "[]" "[]"]
    by (simp add: segs y del: foldl_Cons)
qed

theorem cd_not_found_or_created_witness:
  "cd_temps (path (snd one_client)) [''a''] = [['''', ''a'']] \<and>
   \<not> store_exists (fst one_client) ['''', ''a''] \<and>
   cd (fst one_client) (snd one_client) (Segments [''a'']) False =
     (Inl (DirectoryNotFoundError ['''', ''a'']), one_client) \<and>
   cd_temps (path (snd one_client)) [''a'', ''b''] = [['''', ''a''], ['''', ''a'', ''b'']] \<and>
   store_exists (fst (snd (cd (fst one_client) (snd one_client) (Segments [''a'', ''b'']) True))) ['''', ''a''] \<and>
   store_exists (fst (snd (cd (fst one_client) (snd one_client) (Segments [''a'', ''b'']) True))) ['''', ''a'', ''b''] \<and>
   \<not> store_exists (fst (snd (cd (fst one_client) (snd one_client) (Segments [''a'', ''b'']) True))) ['''', ''a'', ''c'']"
proof -
  have t1: "cd_temps (path (snd one_client)) [''a''] = [['''', ''a'']]"
    and t2: "cd_temps (path (snd one_client)) [''a'', ''b''] = [['''', ''a''], ['''', ''a'', ''b'']]"
    by (simp_all add: one_client_eq cd_step_def)
  have n: "\<not> store_exists (fst one_client) ['''', ''a'']"
    by (simp add: one_client_eq store_exists_def)
  have c: "\<not> store_exists (fst two_down) ['''', ''a'', ''c'']"
    using two_down_listeners [of "['''', ''a'', ''c'']"]
    by (simp add: two_down_def one_client_eq cd_def cd_step_def cd_migrate_def store_exists_def
      store_get_apply Let_def upd_session_def ancestors_def)
  show ?thesis
    using cd_not_found_or_created [of "snd one_client" "[''a'']" "fst one_client" NoPath]
      cd_not_found_or_created [of "snd one_client" "[''a'', ''b'']" "fst one_client" NoPath]
      t1 t2 n c
    by (simp add: two_down_def)
qed

theorem mkdir_then_cd_witness:
  "fst (mkdir (fst one_client) (snd one_client) ''a'') = Inr ['''', ''a''] \<and>
   ID (snd one_client) \<in> listeners_at (fst one_client) (session (snd one_client)) \<and>
   fst (cd (fst (snd (mkdir (fst one_client) (snd one_client) ''a'')))
           (snd (snd (mkdir (fst one_client) (snd one_client) ''a''))) (Segments [''a'']) False) =
     Inr ['''', ''a'']"
proof -
  obtain r st1 c1 where e: "mkdir (fst one_client) (snd one_client) ''a'' = (r, st1, c1)"
    by (cases "mkdir (fst one_client) (snd one_client) ''a''")
  have "r = Inr ['''', ''a'']"
    using e by (simp add: mkdir_def one_client_eq store_exists_def Let_def)
  with e have m: "mkdir (fst one_client) (snd one_client) ''a'' = (Inr ['''', ''a''], st1, c1)"
    by simp
  have sub: "ID (snd one_client) \<in> listeners_at (fst one_client) (session (snd one_client))"
    by (simp add: one_client_eq listeners_at_def new_session_def)
  from mkdir_then_cd [OF m] sub m show ?thesis
    by simp
qed

subsection \<open>Opening and writing a dataset\<close>

lemma lookup_put_dataset:
  "st (fst r) \<noteq> None \<Longrightarrow> lookup_dataset (put_dataset st r d) r = Some d"
  by (auto simp: lookup_dataset_def put_dataset_def upd_session_def split: option.splits)

lemma lookup_dataset_session: "lookup_dataset st r = Some d \<Longrightarrow> st (fst r) \<noteq> None"
  by (auto simp: lookup_dataset_def split: option.splits)

lemma openDataset_found: "openDataset s x = Inr (n, d) \<Longrightarrow> datasets s n = Some d"
  by (auto simp: openDataset_def Let_def split: ds_sel.splits option.splits if_splits)

lemma open_dataset_result:
  assumes "open_dataset st c x = (Inr res, st', c')"
  shows "\<exists>s n d. st (session c) = Some s \<and> openDataset s x = Inr (n, d) \<and> datasets s n = Some d \<and>
           res = (path c, name d) \<and>
           c' = c\<lparr>sel := Some \<lparr>dataset = name d, datasetObj = (session c, n),
                               filepos = 0, commentpos = 0, writing = False\<rparr>\<rparr> \<and>
           lookup_dataset st' (session c, n) =
             Some (d\<lparr>ds_listeners := (ds_listeners d)(ID c \<mapsto> 0),
                     comment_listeners := (comment_listeners d)(ID c \<mapsto> 0)\<rparr>)"
proof -
  from assms obtain s where s: "st (session c) = Some s"
    by (auto simp: open_dataset_def split: option.splits)
  with assms obtain n d where o: "openDataset s x = Inr (n, d)"
    by (auto simp: open_dataset_def split: sum.splits)
  have l: "lookup_dataset (put_dataset st (session c, n) D) (session c, n) = Some D" for D
    using s by (simp add: lookup_put_dataset)
  let ?d' = "d\<lparr>ds_listeners := (ds_listeners d)(ID c \<mapsto> 0),
                 comment_listeners := (comment_listeners d)(ID c \<mapsto> 0)\<rparr>"
  from assms s o have e: "res = (path c, name d)" "st' = put_dataset st (session c, n) ?d'"
    "c' = c\<lparr>sel := Some \<lparr>dataset = name d, datasetObj = (session c, n),
                               filepos = 0, commentpos = 0, writing = False\<rparr>\<rparr>"
    by (simp_all add: open_dataset_def Let_def keepStreaming_def keepStreamingComments_def)
  have "st (session c) = Some s \<and> openDataset s x = Inr (n, d) \<and> datasets s n = Some d \<and>
           res = (path c, name d) \<and>
           c' = c\<lparr>sel := Some \<lparr>dataset = name d, datasetObj = (session c, n),
                               filepos = 0, commentpos = 0, writing = False\<rparr>\<rparr> \<and>
           lookup_dataset st' (session c, n) = Some ?d'"
    using s o openDataset_found[OF o] e l[of ?d'] by simp
  then show ?thesis by blast
qed

text \<open>
  Claim C7. A successful \<^verbatim>\<open>open\<close> finds a dataset \<open>d\<close> of the session of the context,
  by name or by number, returns the path and the name of \<open>d\<close>, and leaves the context with
  \<open>d\<close> as its dataset, both cursors at 0 and the writing flag false; in the store the
  dataset is \<open>d\<close> with the key of the context entered at offset 0 in its data listeners and
  in its comment listeners, and nothing else of it changed.
\<close>

theorem open_selects:
  assumes "open_dataset st c x = (Inr res, st', c')"
  shows "\<exists>s n d. st (session c) = Some s \<and> openDataset s x = Inr (n, d) \<and> datasets s n = Some d \<and>
           res = (path c, name d) \<and>
           c' = c\<lparr>sel := Some \<lparr>dataset = name d, datasetObj = (session c, n),
                               filepos = 0, commentpos = 0, writing = False\<rparr>\<rparr> \<and>
           lookup_dataset st' (session c, n) =
             Some (d\<lparr>ds_listeners := (ds_listeners d)(ID c \<mapsto> 0),
                     comment_listeners := (comment_listeners d)(ID c \<mapsto> 0)\<rparr>)"
  using assms by (rule open_dataset_result)

lemma addData_outcome:
  "addData d data =
     (if list_all (\<lambda>r. length r = length (independents d) + length (dependents d)) data
      then Inr (d\<lparr>rows := rows d @ data\<rparr>, data_signalled (d\<lparr>rows := rows d @ data\<rparr>))
      else Inl InvalidArgument)"
  by (simp add: addData_def Let_def)

lemma add_selected:
  assumes "sel c = Some sl" and "lookup_dataset st (datasetObj sl) = Some d"
  shows "add st c data =
     (if \<not> writing sl then (Inl ReadOnlyError, st, c)
      else if list_all (\<lambda>r. length r = length (independents d) + length (dependents d)) data
      then (Inr (data_signalled (d\<lparr>rows := rows d @ data\<rparr>)),
            put_dataset st (datasetObj sl) (d\<lparr>rows := rows d @ data\<rparr>), c)
      else (Inl InvalidArgument, st, c))"
  using assms by (simp add: add_def getDataset_def addData_outcome)

lemma new_selects:
  assumes "new st c nm inds deps = (Inr res, st', c')"
  shows "\<exists>sl d. sel c' = Some sl \<and> writing sl \<and> filepos sl = 0 \<and> commentpos sl = 0 \<and>
           lookup_dataset st' (datasetObj sl) = Some d \<and> rows d = [] \<and> dataset sl = name d \<and>
           res = (path c, name d)"
proof -
  from assms obtain s where s: "st (session c) = Some s"
    by (auto simp: new_def split: option.splits)
  let ?title = "if nm = '''' then ''untitled'' else nm"
  from assms s obtain s' d where n: "newDataset s ?title inds deps = Inr (s', d)"
    by (auto simp: new_def split: sum.splits)
  from n have d: "rows d = []" "datasets s' (name d) = Some d"
    by (auto simp: newDataset_def Let_def split: option.splits)
  let ?sl = "\<lparr>dataset = name d, datasetObj = (session c, name d),
              filepos = 0, commentpos = 0, writing = True\<rparr>"
  from assms s n have e: "res = (path c, name d)" "st' = st(session c \<mapsto> s')"
    "c' = c\<lparr>sel := Some ?sl\<rparr>"
    by (simp_all add: new_def)
  have "sel c' = Some ?sl \<and> writing ?sl \<and> filepos ?sl = 0 \<and> commentpos ?sl = 0 \<and>
           lookup_dataset st' (datasetObj ?sl) = Some d \<and> rows d = [] \<and> dataset ?sl = name d \<and>
           res = (path c, name d)"
    using e d by (simp add: lookup_dataset_def)
  then show ?thesis by blast
qed

text \<open>
  Claim C3. For a context with a dataset selected, \<^verbatim>\<open>add\<close> raises \<^verbatim>\<open>ReadOnlyError\<close>
  exactly when the writing flag of the context is false, and with the flag true and rows
  of the arity of the schema it appends the rows to the dataset. A successful \<^verbatim>\<open>open\<close>
  leaves the flag false, so that \<^verbatim>\<open>add\<close> then raises \<^verbatim>\<open>ReadOnlyError\<close> and changes
  nothing; a successful \<^verbatim>\<open>new\<close> leaves the flag true, so that \<^verbatim>\<open>add\<close> then does not
  raise \<^verbatim>\<open>ReadOnlyError\<close> and appends rows of the right arity.
\<close>

theorem add_read_only:
  "(\<forall>sl d. sel c = Some sl \<and> lookup_dataset st (datasetObj sl) = Some d \<longrightarrow>
       (fst (add st c data) = Inl ReadOnlyError \<longleftrightarrow> \<not> writing sl) \<and>
       (writing sl \<and> list_all (\<lambda>r. length r = length (independents d) + length (dependents d)) data \<longrightarrow>
          (\<exists>sig st''. add st c data = (Inr sig, st'', c) \<and>
             lookup_dataset st'' (datasetObj sl) = Some (d\<lparr>rows := rows d @ data\<rparr>)))) \<and>
   (\<forall>res st' c'. open_dataset st c x = (Inr res, st', c') \<longrightarrow>
       (\<exists>sl. sel c' = Some sl \<and> \<not> writing sl) \<and> add st' c' data = (Inl ReadOnlyError, st', c')) \<and>
   (\<forall>res st' c'. new st c nm inds deps = (Inr res, st', c') \<longrightarrow>
       (\<exists>sl d. sel c' = Some sl \<and> writing sl \<and> lookup_dataset st' (datasetObj sl) = Some d \<and>
          fst (add st' c' data) \<noteq> Inl ReadOnlyError \<and>
          (list_all (\<lambda>r. length r = length (independents d) + length (dependents d)) data \<longrightarrow>
             (\<exists>sig st''. add st' c' data = (Inr sig, st'', c') \<and>
                lookup_dataset st'' (datasetObj sl) = Some (d\<lparr>rows := rows d @ data\<rparr>)))))"
proof -
  have general: "(fst (add st c data) = Inl ReadOnlyError \<longleftrightarrow> \<not> writing sl) \<and>
       (writing sl \<and> list_all (\<lambda>r. length r = length (independents d) + length (dependents d)) data \<longrightarrow>
          (\<exists>sig st''. add st c data = (Inr sig, st'', c) \<and>
             lookup_dataset st'' (datasetObj sl) = Some (d\<lparr>rows := rows d @ data\<rparr>)))"
    if "sel c = Some sl" "lookup_dataset st (datasetObj sl) = Some d" for st c sl d
  proof -
    have "st (fst (datasetObj sl)) \<noteq> None"
      using that(2) by (rule lookup_dataset_session)
    then have "lookup_dataset (put_dataset st (datasetObj sl) D) (datasetObj sl) = Some D" for D
      by (rule lookup_put_dataset)
    with add_selected[where c=c and sl=sl and st=st and d=d and data=data, OF that]
    show ?thesis by simp
  qed
  have opened: "(\<exists>sl. sel c' = Some sl \<and> \<not> writing sl) \<and> add st' c' data = (Inl ReadOnlyError, st', c')"
    if "open_dataset st c x = (Inr res, st', c')" for res st' c'
  proof -
    from open_dataset_result[OF that] obtain n D where
      c': "c' = c\<lparr>sel := Some \<lparr>dataset = name D, datasetObj = (session c, n),
                               filepos = 0, commentpos = 0, writing = False\<rparr>\<rparr>"
      and l: "lookup_dataset st' (session c, n) =
             Some (D\<lparr>ds_listeners := (ds_listeners D)(ID c \<mapsto> 0),
                     comment_listeners := (comment_listeners D)(ID c \<mapsto> 0)\<rparr>)"
      by blast
    then show ?thesis by (simp add: add_def getDataset_def)
  qed
  have created: "\<exists>sl d. sel c' = Some sl \<and> writing sl \<and> lookup_dataset st' (datasetObj sl) = Some d \<and>
          fst (add st' c' data) \<noteq> Inl ReadOnlyError \<and>
          (list_all (\<lambda>r. length r = length (independents d) + length (dependents d)) data \<longrightarrow>
             (\<exists>sig st''. add st' c' data = (Inr sig, st'', c') \<and>
                lookup_dataset st'' (datasetObj sl) = Some (d\<lparr>rows := rows d @ data\<rparr>)))"
    if "new st c nm inds deps = (Inr res, st', c')" for res st' c'
  proof -
    from new_selects[OF that] obtain sl d where
      s: "sel c' = Some sl" "lookup_dataset st' (datasetObj sl) = Some d" and w: "writing sl"
      by blast
    from general[OF s] w s show ?thesis by blast
  qed
  from general opened created show ?thesis by blast
qed

lemma scan_made_eq:
  "scan_made =
     (Inr ([''''], (1, ''scan'')),
      [[''''] \<mapsto> \<lparr>session_path = [''''], datasets = [(1, ''scan'') \<mapsto> scan0],
                    dataset_order = [(1, ''scan'')], listeners = {7}\<rparr>],
      \<lparr>ID = 7, path = [''''], session = [''''],
       sel = Some \<lparr>dataset = (1, ''scan''), datasetObj = ([''''], (1, ''scan'')),
                   filepos = 0, commentpos = 0, writing = True\<rparr>\<rparr>)"
  by (simp add: scan_made_def one_client_eq new_def newDataset_def new_session_def scan0_def Let_def)

lemma scan_opened_eq:
  "scan_opened =
     (Inr ([''''], (1, ''scan'')),
      [[''''] \<mapsto> \<lparr>session_path = [''''],
                    datasets = [(1, ''scan'') \<mapsto> scan0\<lparr>ds_listeners := [8 \<mapsto> 0], comment_listeners := [8 \<mapsto> 0]\<rparr>],
                    dataset_order = [(1, ''scan'')], listeners = {7, 8}\<rparr>],
      \<lparr>ID = 8, path = [''''], session = [''''],
       sel = Some \<lparr>dataset = (1, ''scan''), datasetObj = ([''''], (1, ''scan'')),
                   filepos = 0, commentpos = 0, writing = False\<rparr>\<rparr>)"
  by (simp add: scan_opened_def scan_made_eq initContext_def client_def store_get_def store_exists_def
      upd_session_def open_dataset_def openDataset_def put_dataset_def keepStreaming_def
      keepStreamingComments_def scan0_def insert_commute Let_def)

subsection \<open>Expiry of a context\<close>

lemma expire_dataset_clear:
  "ds_listeners (expire_dataset k d) k = None \<and> k \<notin> param_listeners (expire_dataset k d) \<and>
   comment_listeners (expire_dataset k d) k = None"
  by (simp add: expire_dataset_def removeFromMap_def removeFromList_def)

lemma expire_session_clear: "k \<notin> listeners (expire_session k s)"
  by (simp add: expire_session_def removeFromList_def)

lemma not_signalled: "ds_listeners d k = None \<Longrightarrow> addData d data = Inr (d', sig) \<Longrightarrow> k \<notin> sig"
  by (auto simp: addData_def Let_def data_signalled_def split: if_splits)

text \<open>
  Claim C2. \<^verbatim>\<open>expireContext(c)\<close> keeps every session of the store, and afterwards the
  key of \<open>c\<close> is in the listener set of no session and, for every dataset of every
  session, in none of its data listeners, parameter listeners and comment listeners; so
  no later \<^verbatim>\<open>addData\<close> on such a dataset, and no \<^verbatim>\<open>add\<close> of any context on the store,
  signals the key.
\<close>

theorem expireContext_removes:
  "(\<forall>p. store_exists (expireContext st c) p = store_exists st p) \<and>
   (\<forall>p s. expireContext st c p = Some s \<longrightarrow>
      ID c \<notin> listeners s \<and>
      (\<forall>n d. datasets s n = Some d \<longrightarrow>
         ds_listeners d (ID c) = None \<and> ID c \<notin> param_listeners d \<and>
         comment_listeners d (ID c) = None \<and>
         (\<forall>data d' sig. addData d data = Inr (d', sig) \<longrightarrow> ID c \<notin> sig))) \<and>
   (\<forall>c2 data sig st' c2'. add (expireContext st c) c2 data = (Inr sig, st', c2') \<longrightarrow> ID c \<notin> sig)"
proof -
  have dom: "store_exists (expireContext st c) p = store_exists st p" for p
    by (simp add: expireContext_def store_exists_def)
  have ds: "ds_listeners d (ID c) = None \<and> ID c \<notin> param_listeners d \<and>
         comment_listeners d (ID c) = None \<and>
         (\<forall>data d' sig. addData d data = Inr (d', sig) \<longrightarrow> ID c \<notin> sig)"
    if s: "expireContext st c p = Some s" and d: "datasets s n = Some d" for p s n d
  proof -
    from s obtain s0 where "s = expire_session (ID c) s0"
      by (auto simp: expireContext_def)
    with d obtain d0 where "d = expire_dataset (ID c) d0"
      by (auto simp: expire_session_def)
    then have k: "ds_listeners d (ID c) = None" "ID c \<notin> param_listeners d"
      "comment_listeners d (ID c) = None"
      using expire_dataset_clear[of "ID c" d0] by simp_all
    have "ID c \<notin> sig" if "addData d data = Inr (d', sig)" for data d' sig
      using k(1) that by (rule not_signalled)
    with k show ?thesis by blast
  qed
  have ls: "ID c \<notin> listeners s" if "expireContext st c p = Some s" for p s
  proof -
    from that obtain s0 where "s = expire_session (ID c) s0"
      by (auto simp: expireContext_def)
    then show ?thesis by (simp add: expire_session_clear)
  qed
  have ad: "ID c \<notin> sig" if a: "add (expireContext st c) c2 data = (Inr sig, st', c2')"
    for c2 data sig st' c2'
  proof -
    from a obtain sl d where g: "getDataset (expireContext st c) c2 = Inr (sl, d)"
      by (cases "getDataset (expireContext st c) c2") (auto simp: add_def)
    then obtain s where s: "expireContext st c (fst (datasetObj sl)) = Some s"
      and d: "datasets s (snd (datasetObj sl)) = Some d"
      by (auto simp: getDataset_def lookup_dataset_def split: option.splits)
    from a g obtain d' where "addData d data = Inr (d', sig)"
      by (cases "addData d data") (auto simp: add_def split: if_splits)
    with ds[OF s d] show ?thesis by blast
  qed
  from dom ds ls ad show ?thesis by blast
qed

theorem expireContext_removes_witness:
  "listeners_at (fst (snd scan_opened)) [''''] = {7, 8} \<and>
   map_option (\<lambda>d. ds_listeners d 8) (lookup_dataset (fst (snd scan_opened)) ([''''], (1, ''scan''))) = Some (Some 0) \<and>
   fst (add (fst (snd scan_opened)) (snd (snd scan_made)) [[0, 1]]) = Inr {8} \<and>
   store_exists (expireContext (fst (snd scan_opened)) (snd (snd scan_opened))) [''''] \<and>
   8 \<notin> listeners_at (expireContext (fst (snd scan_opened)) (snd (snd scan_opened))) [''''] \<and>
   listeners_at (expireContext (fst (snd scan_opened)) (snd (snd scan_opened))) [''''] = {7} \<and>
   map_option (\<lambda>d. ds_listeners d 8)
     (lookup_dataset (expireContext (fst (snd scan_opened)) (snd (snd scan_opened))) ([''''], (1, ''scan''))) = Some None \<and>
   fst (add (expireContext (fst (snd scan_opened)) (snd (snd scan_opened))) (snd (snd scan_made)) [[0, 1]]) = Inr {}"
proof -
  let ?st = "fst (snd scan_opened)" and ?c = "snd (snd scan_opened)"
  let ?w = "snd (snd scan_made)"
  let ?st' = "expireContext ?st ?c"
  have id: "ID ?c = 8" by (simp add: scan_opened_eq)
  have before: "listeners_at ?st [''''] = {7, 8}"
    "map_option (\<lambda>d. ds_listeners d 8) (lookup_dataset ?st ([''''], (1, ''scan''))) = Some (Some 0)"
    by (simp_all add: scan_opened_eq listeners_at_def lookup_dataset_def)
  have sig: "fst (add ?st ?w [[0, 1]]) = Inr {8}"
    by (auto simp: scan_opened_eq scan_made_eq add_def getDataset_def lookup_dataset_def addData_def
        scan0_def Let_def data_signalled_def)
  obtain r st2 c2 where a: "add ?st' ?w [[0, 1]] = (r, st2, c2)"
    by (cases "add ?st' ?w [[0, 1]]")
  have ex: "store_exists ?st' ['''']"
    using expireContext_removes[of ?st ?c] by (simp add: scan_opened_eq store_exists_def)
  obtain s where s: "?st' [''''] = Some s"
    using ex by (auto simp: store_exists_def)
  have gone: "8 \<notin> listeners_at ?st' ['''']"
    using expireContext_removes[of ?st ?c] s id by (simp add: listeners_at_def)
  have after: "listeners_at ?st' [''''] = {7}"
    "map_option (\<lambda>d. ds_listeners d 8) (lookup_dataset ?st' ([''''], (1, ''scan''))) = Some None"
    by (auto simp: scan_opened_eq listeners_at_def lookup_dataset_def expireContext_def
        expire_session_def expire_dataset_def removeFromList_def removeFromMap_def)
  have r: "r = Inr {}"
    using a
    by (auto simp: scan_opened_eq scan_made_eq add_def getDataset_def lookup_dataset_def addData_def
        scan0_def Let_def data_signalled_def expireContext_def expire_session_def expire_dataset_def
        removeFromList_def removeFromMap_def)
  from before sig ex gone after a r show ?thesis by simp
qed

lemma scan_opened_run:
  "open_dataset (fst (initContext (fst (snd scan_made)) (client 8)))
      (snd (initContext (fst (snd scan_made)) (client 8))) (ByName (1, ''scan'')) =
     (Inr ([''''], (1, ''scan'')), fst (snd scan_opened), snd (snd scan_opened))"
proof -
  have e: "open_dataset (fst (initContext (fst (snd scan_made)) (client 8)))
      (snd (initContext (fst (snd scan_made)) (client 8))) (ByName (1, ''scan'')) = scan_opened"
    by (simp add: scan_opened_def split: prod.splits)
  have f: "fst scan_opened = Inr ([''''], (1, ''scan''))"
    by (simp add: scan_opened_eq)
  show ?thesis
    by (metis e f prod.collapse)
qed

theorem open_selects_witness:
  "fst scan_opened = Inr ([''''], (1, ''scan'')) \<and>
   sel (snd (snd scan_opened)) =
     Some \<lparr>dataset = (1, ''scan''), datasetObj = ([''''], (1, ''scan'')),
           filepos = 0, commentpos = 0, writing = False\<rparr> \<and>
   map_option (\<lambda>d. (ds_listeners d 8, comment_listeners d 8))
     (lookup_dataset (fst (snd scan_opened)) ([''''], (1, ''scan''))) = Some (Some 0, Some 0)"
proof -
  let ?st = "fst (initContext (fst (snd scan_made)) (client 8))"
  let ?c = "snd (initContext (fst (snd scan_made)) (client 8))"
  have c: "ID ?c = 8" "session ?c = ['''']" "path ?c = ['''']"
    by (simp_all add: initContext_def client_def Let_def)
  from open_selects [OF scan_opened_run] obtain s n d where
    f: "openDataset s (ByName (1, ''scan'')) = Inr (n, d)" "([''''], (1, ''scan'')) = (path ?c, name d)"
      "snd (snd scan_opened) = ?c\<lparr>sel := Some \<lparr>dataset = name d, datasetObj = (session ?c, n),
                               filepos = 0, commentpos = 0, writing = False\<rparr>\<rparr>"
      "lookup_dataset (fst (snd scan_opened)) (session ?c, n) =
             Some (d\<lparr>ds_listeners := (ds_listeners d)(ID ?c \<mapsto> 0),
                     comment_listeners := (comment_listeners d)(ID ?c \<mapsto> 0)\<rparr>)"
    by blast
  from f(1) have n: "n = (1, ''scan'')"
    by (auto simp: openDataset_def split: option.splits)
  from f(2) have nd: "name d = (1, ''scan'')"
    by simp
  have r: "fst scan_opened = Inr ([''''], (1, ''scan''))"
    by (simp add: scan_opened_eq)
  have s: "sel (snd (snd scan_opened)) =
     Some \<lparr>dataset = (1, ''scan''), datasetObj = ([''''], (1, ''scan'')),
           filepos = 0, commentpos = 0, writing = False\<rparr>"
    unfolding f(3) n nd c by simp
  have l: "lookup_dataset (fst (snd scan_opened)) ([''''], (1, ''scan'')) =
             Some (d\<lparr>ds_listeners := (ds_listeners d)(8 \<mapsto> 0),
                     comment_listeners := (comment_listeners d)(8 \<mapsto> 0)\<rparr>)"
    using f(4) unfolding n c .
  show ?thesis
    unfolding r s l by simp
qed

theorem add_read_only_witness:
  "fst (add (fst (snd scan_opened)) (snd (snd scan_opened)) [[0, 1]]) = Inl ReadOnlyError \<and>
   fst (add (fst (snd scan_made)) (snd (snd scan_made)) [[0, 1]]) \<noteq> Inl ReadOnlyError \<and>
   map_option rows (lookup_dataset (fst (snd (add (fst (snd scan_made)) (snd (snd scan_made)) [[0, 1]])))
      ([''''], (1, ''scan''))) = Some [[0, 1]]"
proof -
  let ?st = "fst (initContext (fst (snd scan_made)) (client 8))"
  let ?c = "snd (initContext (fst (snd scan_made)) (client 8))"
  have ro: "add (fst (snd scan_opened)) (snd (snd scan_opened)) [[0, 1]] =
      (Inl ReadOnlyError, fst (snd scan_opened), snd (snd scan_opened))"
    using add_read_only [where st = ?st and c = ?c and x = "ByName (1, ''scan'')" and data = "[[0, 1]]"]
      scan_opened_run
    by blast
  have made: "new (fst one_client) (snd one_client) ''scan'' [[''time'', ''s'']] [[''signal'', ''ch1'', ''V'']] =
      (Inr ([''''], (1, ''scan'')), fst (snd scan_made), snd (snd scan_made))"
    unfolding scan_made_def[symmetric] by (simp add: scan_made_eq)
  have sl: "sel (snd (snd scan_made)) = Some \<lparr>dataset = (1, ''scan''), datasetObj = ([''''], (1, ''scan'')),
                   filepos = 0, commentpos = 0, writing = True\<rparr>"
    and d: "lookup_dataset (fst (snd scan_made)) ([''''], (1, ''scan'')) = Some scan0"
    by (simp_all add: scan_made_eq lookup_dataset_def)
  have arity: "list_all (\<lambda>r. length r = length (independents scan0) + length (dependents scan0)) [[0, 1 :: real]]"
    by (simp add: scan0_def)
  from add_read_only [where st = "fst one_client" and c = "snd one_client" and nm = "''scan''"
      and inds = "[[''time'', ''s'']]" and deps = "[[''signal'', ''ch1'', ''V'']]" and data = "[[0, 1]]"]
    made obtain sl' d' where
    w: "sel (snd (snd scan_made)) = Some sl'" "lookup_dataset (fst (snd scan_made)) (datasetObj sl') = Some d'"
      "fst (add (fst (snd scan_made)) (snd (snd scan_made)) [[0, 1]]) \<noteq> Inl ReadOnlyError"
      "list_all (\<lambda>r. length r = length (independents d') + length (dependents d')) [[0, 1 :: real]] \<longrightarrow>
          (\<exists>sig st''. add (fst (snd scan_made)) (snd (snd scan_made)) [[0, 1]] = (Inr sig, st'', snd (snd scan_made)) \<and>
             lookup_dataset st'' (datasetObj sl') = Some (d'\<lparr>rows := rows d' @ [[0, 1]]\<rparr>))"
    by blast
  from w(1) sl have sl': "datasetObj sl' = ([''''], (1, ''scan''))" by auto
  from w(2) d sl' have d': "d' = scan0" by simp
  from w(4) arity obtain sig st'' where
    a: "add (fst (snd scan_made)) (snd (snd scan_made)) [[0, 1]] = (Inr sig, st'', snd (snd scan_made))"
      "lookup_dataset st'' ([''''], (1, ''scan'')) = Some (scan0\<lparr>rows := rows scan0 @ [[0, 1]]\<rparr>)"
    unfolding d' sl' by blast
  have "map_option rows (lookup_dataset (fst (snd (add (fst (snd scan_made)) (snd (snd scan_made)) [[0, 1]])))
      ([''''], (1, ''scan''))) = Some [[0, 1]]"
    unfolding a(1) using a(2) by (simp add: scan0_def)
  with ro w(3) show ?thesis by simp
qed

subsection \<open>Contexts that satisfy the hypothesis on listeners\<close>

text \<open>
  The hypothesis of the theorems on \<^verbatim>\<open>cd\<close> holds for a context as \<^verbatim>\<open>initContext\<close> leaves it,
  and a \<^verbatim>\<open>cd\<close> of one context does not touch the subscriptions of another key.
\<close>

lemma initContext_subscribed:
  assumes "\<forall>p. ID c \<notin> listeners_at st p" and "initContext st c = (st', c')"
  shows "session c' = path c' \<and> ID c' = ID c \<and> (\<forall>p. ID c' \<in> listeners_at st' p \<longleftrightarrow> p = session c')"
  using assms
  by (auto simp: initContext_def Let_def upd_session_def store_get_apply listeners_at_def new_session_def
      split: option.splits if_splits)

lemma cd_migrate_others:
  assumes "cd_migrate st c temp = (r, st', c')" and "k \<noteq> ID c"
  shows "(k \<in> listeners_at st' p) = (k \<in> listeners_at st p)"
  using assms
  by (auto simp: cd_migrate_def Let_def upd_session_def store_get_apply listeners_at_def new_session_def
      split: option.splits if_splits)

lemma cd_others:
  assumes "cd st c arg create = (r, st', c')" and "k \<noteq> ID c"
  shows "(k \<in> listeners_at st' p) = (k \<in> listeners_at st p)"
proof -
  have looped: ?thesis
    if c: "(case cd_loop st create (path c) segs of
             (Inl e, st') \<Rightarrow> (Inl e, st', c)
           | (Inr temp, st') \<Rightarrow> cd_migrate st' c temp) = (r, st', c')" for segs
  proof -
    obtain r1 st1 where l: "cd_loop st create (path c) segs = (r1, st1)"
      by (cases "cd_loop st create (path c) segs")
    have same: "listeners_at st1 p = listeners_at st p"
      using cd_loop_listeners[OF l] .
    show ?thesis
    proof (cases r1)
      case (Inl e)
      with c l same show ?thesis by auto
    next
      case (Inr temp)
      with c l have "cd_migrate st1 c temp = (r, st', c')" by simp
      from cd_migrate_others[OF this assms(2)] same show ?thesis by simp
    qed
  qed
  show ?thesis
  proof (cases arg)
    case NoPath
    with assms show ?thesis by (auto simp: cd_def)
  next
    case (Levels n)
    with assms(1) have "cd_migrate st c (if n > 0
                       then (let t = take (length (path c) - nat n) (path c) in if length t = 0 then [''''] else t)
                       else path c) = (r, st', c')"
      by (simp add: cd_def Let_def)
    from cd_migrate_others[OF this assms(2)] show ?thesis .
  next
    case (Segment s)
    with assms(1) have "(case cd_loop st create (path c) [s] of
             (Inl e, st') \<Rightarrow> (Inl e, st', c)
           | (Inr temp, st') \<Rightarrow> cd_migrate st' c temp) = (r, st', c')"
      by (simp add: cd_def del: cd_loop.simps)
    then show ?thesis by (rule looped)
  next
    case (Segments segs)
    with assms(1) have "(case cd_loop st create (path c) segs of
             (Inl e, st') \<Rightarrow> (Inl e, st', c)
           | (Inr temp, st') \<Rightarrow> cd_migrate st' c temp) = (r, st', c')"
      by (simp add: cd_def del: cd_loop.simps)
    then show ?thesis by (rule looped)
  qed
qed

end
